theory Spec2Isabelle
  imports Complex_Main
begin

section \<open>JavaScript values\<close>

text \<open>
  The dashboard scripts work on JSON payloads. A value is one of the JSON shapes or
  \<open>undefined\<close>. Numbers in these payloads are identifiers and counters, so they are
  integers here. A string is the list of the bytes of its UTF-8 encoding: an ASCII
  character is one byte, and no byte of a longer character is an ASCII byte. The
  scripts compare text with ASCII separators and ASCII words only.
  An object is the list of its own properties; reading a property that is not there
  gives \<open>undefined\<close>.
\<close>

datatype jsval =
    Undefined
  | Null
  | JBool bool
  | JNum int
  | JStr string
  | JArr "jsval list"
  | JObj "(string \<times> jsval) list"

datatype error = TypeError | FetchError | JqError

text \<open>\<open>v.k\<close> for a value that is neither \<open>undefined\<close> nor \<open>null\<close>.\<close>

fun field :: "jsval \<Rightarrow> string \<Rightarrow> jsval" where
  "field (JObj kvs) k = (case map_of kvs k of None \<Rightarrow> Undefined | Some v \<Rightarrow> v)"
| "field _ k = Undefined"

fun truthy :: "jsval \<Rightarrow> bool" where
  "truthy Undefined = False"
| "truthy Null = False"
| "truthy (JBool b) = b"
| "truthy (JNum n) = (n \<noteq> 0)"
| "truthy (JStr s) = (s \<noteq> [])"
| "truthy (JArr xs) = True"
| "truthy (JObj kvs) = True"

text \<open>\<open>a || b\<close>\<close>

definition js_or :: "jsval \<Rightarrow> jsval \<Rightarrow> jsval" where
  "js_or a b = (if truthy a then a else b)"

section \<open>Strings\<close>

text \<open>\<open>s.split(c)\<close> for a one-character separator: never empty, \<open>''''.split(c) = ['''']\<close>.\<close>

fun split_on :: "char \<Rightarrow> string \<Rightarrow> string list" where
  "split_on c [] = [[]]"
| "split_on c (x # xs) =
     (if x = c then [] # split_on c xs
      else (case split_on c xs of [] \<Rightarrow> [[x]] | s # ss \<Rightarrow> (x # s) # ss))"

text \<open>
  \<open>s.trim()\<close> removes white space and line terminators from both ends. These are the
  code points U+0009 to U+000D, U+0020, U+00A0, U+1680, U+2000 to U+200A, U+2028, U+2029,
  U+202F, U+205F, U+3000 and U+FEFF; \<open>white_space\<close> lists their encodings. \<open>strip\<close> removes
  them from the front of a string. At the end, a character is met last byte first, and
  the first byte of an encoding tells where the character begins, so the reversed
  string is stripped of the reversed encodings.
\<close>

definition white_space :: "string list" where
  "white_space =
     [[CHR 0x09], [CHR 0x0A], [CHR 0x0B], [CHR 0x0C], [CHR 0x0D], [CHR 0x20],
      [CHR 0xC2, CHR 0xA0],
      [CHR 0xE1, CHR 0x9A, CHR 0x80],
      [CHR 0xE2, CHR 0x80, CHR 0x80], [CHR 0xE2, CHR 0x80, CHR 0x81],
      [CHR 0xE2, CHR 0x80, CHR 0x82], [CHR 0xE2, CHR 0x80, CHR 0x83],
      [CHR 0xE2, CHR 0x80, CHR 0x84], [CHR 0xE2, CHR 0x80, CHR 0x85],
      [CHR 0xE2, CHR 0x80, CHR 0x86], [CHR 0xE2, CHR 0x80, CHR 0x87],
      [CHR 0xE2, CHR 0x80, CHR 0x88], [CHR 0xE2, CHR 0x80, CHR 0x89],
      [CHR 0xE2, CHR 0x80, CHR 0x8A],
      [CHR 0xE2, CHR 0x80, CHR 0xA8], [CHR 0xE2, CHR 0x80, CHR 0xA9],
      [CHR 0xE2, CHR 0x80, CHR 0xAF],
      [CHR 0xE2, CHR 0x81, CHR 0x9F],
      [CHR 0xE3, CHR 0x80, CHR 0x80],
      [CHR 0xEF, CHR 0xBB, CHR 0xBF]]"

definition is_ws :: "string \<Rightarrow> bool" where
  "is_ws w = (w \<in> set white_space)"

fun strip :: "(string \<Rightarrow> bool) \<Rightarrow> string \<Rightarrow> string" where
  "strip ws (a # b # c # s) =
     (if ws [a] then strip ws (b # c # s)
      else if ws [a, b] then strip ws (c # s)
      else if ws [a, b, c] then strip ws s
      else a # b # c # s)"
| "strip ws [a, b] = (if ws [a] then strip ws [b] else if ws [a, b] then [] else [a, b])"
| "strip ws [a] = (if ws [a] then [] else [a])"
| "strip ws [] = []"

definition trim :: "string \<Rightarrow> string" where
  "trim s = rev (strip (\<lambda>w. is_ws (rev w)) (rev (strip is_ws s)))"

text \<open>
  \<open>s.toLowerCase()\<close> and jq's \<open>ascii_downcase\<close>, as far as the ASCII letters go; the bytes
  of the other characters are left as they are. The lower-cased text is only searched
  for ASCII words. Of the characters outside ASCII, \<open>toLowerCase\<close> turns U+212A into \<open>k\<close>
  and U+0130 into \<open>i\<close> followed by a combining dot, and gives no other ASCII letter;
  none of the words searched for has a \<open>k\<close> or ends in \<open>i\<close>, so the search has the same
  answer here.
\<close>

definition lower_char :: "char \<Rightarrow> char" where
  "lower_char c =
     (case map_of (zip ''ABCDEFGHIJKLMNOPQRSTUVWXYZ'' ''abcdefghijklmnopqrstuvwxyz'') c of
        Some l \<Rightarrow> l
      | None \<Rightarrow> c)"

definition lower :: "string \<Rightarrow> string" where
  "lower s = map lower_char s"

text \<open>\<open>s.includes(pat)\<close>, jq's \<open>contains\<close> on strings, and \<open>/pat/.test(s)\<close> for a pattern of plain letters.\<close>

fun is_prefix :: "string \<Rightarrow> string \<Rightarrow> bool" where
  "is_prefix [] s = True"
| "is_prefix (p # ps) [] = False"
| "is_prefix (p # ps) (c # cs) = (p = c \<and> is_prefix ps cs)"

fun str_includes :: "string \<Rightarrow> string \<Rightarrow> bool" where
  "str_includes [] pat = (pat = [])"
| "str_includes (c # cs) pat = (is_prefix pat (c # cs) \<or> str_includes cs pat)"

section \<open>Run normalizer (app.js, normalizeRun)\<close>

text \<open>
  The dashboard engine v2.0, \<open>app.js\<close>:
  \<^verbatim>\<open>
  function normalizeRun(run) {
    return {
      id:            run.id,
      name:          run.name || run.workflow_name || 'unknown',
      status:        run.status || 'completed',
      conclusion:    run.conclusion || 'unknown',
      html_url:      run.html_url || '#',
      created_at:    run.created_at || run.updated_at || new Date().toISOString(),
      updated_at:    run.updated_at || run.created_at || new Date().toISOString(),
      head_branch:   run.head_branch || 'main',
      head_sha:      run.head_sha || '',
      event:         run.event || 'push',
      run_number:    run.run_number || 0,
      actor:         run.actor || run.triggering_actor || null,
      run_started_at: run.run_started_at || run.created_at
    };
  }
  \<close>
  \<open>now\<close> is the text that \<open>new Date().toISOString()\<close> returns at the time of the call.
  The argument is a value whose properties can be read; on \<open>undefined\<close> and \<open>null\<close>
  the first property access raises, which \<open>map_normalizeRun\<close> below accounts for.
\<close>

definition normalizeRun :: "string \<Rightarrow> jsval \<Rightarrow> jsval" where
  "normalizeRun now run = JObj
     [(''id'', field run ''id''),
      (''name'', js_or (js_or (field run ''name'') (field run ''workflow_name'')) (JStr ''unknown'')),
      (''status'', js_or (field run ''status'') (JStr ''completed'')),
      (''conclusion'', js_or (field run ''conclusion'') (JStr ''unknown'')),
      (''html_url'', js_or (field run ''html_url'') (JStr ''#'')),
      (''created_at'', js_or (js_or (field run ''created_at'') (field run ''updated_at'')) (JStr now)),
      (''updated_at'', js_or (js_or (field run ''updated_at'') (field run ''created_at'')) (JStr now)),
      (''head_branch'', js_or (field run ''head_branch'') (JStr ''main'')),
      (''head_sha'', js_or (field run ''head_sha'') (JStr [])),
      (''event'', js_or (field run ''event'') (JStr ''push'')),
      (''run_number'', js_or (field run ''run_number'') (JNum 0)),
      (''actor'', js_or (js_or (field run ''actor'') (field run ''triggering_actor'')) Null),
      (''run_started_at'', js_or (field run ''run_started_at'') (field run ''created_at''))]"

text \<open>
  The copy of the function in the v3.0 engine (the script that follows the text of
  \<open>README.md\<close>) differs in two lines:
  \<^verbatim>\<open>
      conclusion:     run.conclusion || (run.status === 'completed' ? 'unknown' : 'in_progress'),
      created_at:     run.created_at || new Date().toISOString(),
  \<close>
\<close>

definition normalizeRun_v3 :: "string \<Rightarrow> jsval \<Rightarrow> jsval" where
  "normalizeRun_v3 now run = JObj
     [(''id'', field run ''id''),
      (''name'', js_or (js_or (field run ''name'') (field run ''workflow_name'')) (JStr ''unknown'')),
      (''status'', js_or (field run ''status'') (JStr ''completed'')),
      (''conclusion'', js_or (field run ''conclusion'')
         (if field run ''status'' = JStr ''completed'' then JStr ''unknown'' else JStr ''in_progress'')),
      (''html_url'', js_or (field run ''html_url'') (JStr ''#'')),
      (''created_at'', js_or (field run ''created_at'') (JStr now)),
      (''updated_at'', js_or (js_or (field run ''updated_at'') (field run ''created_at'')) (JStr now)),
      (''head_branch'', js_or (field run ''head_branch'') (JStr ''main'')),
      (''head_sha'', js_or (field run ''head_sha'') (JStr [])),
      (''event'', js_or (field run ''event'') (JStr ''push'')),
      (''run_number'', js_or (field run ''run_number'') (JNum 0)),
      (''actor'', js_or (js_or (field run ''actor'') (field run ''triggering_actor'')) Null),
      (''run_started_at'', js_or (field run ''run_started_at'') (field run ''created_at''))]"

text \<open>
  \<open>v.map(normalizeRun)\<close> for a truthy \<open>v\<close>: a value that is not an array has no \<open>map\<close>,
  and an element that is \<open>undefined\<close> or \<open>null\<close> makes \<open>run.id\<close> raise.
\<close>

definition map_normalizeRun :: "string \<Rightarrow> jsval \<Rightarrow> error + jsval list" where
  "map_normalizeRun now v =
     (case v of
        JArr xs \<Rightarrow>
          (if list_ex (\<lambda>x. x = Undefined \<or> x = Null) xs then Inl TypeError
           else Inr (map (normalizeRun now) xs))
      | _ \<Rightarrow> Inl TypeError)"

section \<open>Data fetcher (app.js, fetchRepoData and refresh)\<close>

text \<open>
  A manifest entry; the code modelled here reads only its name.
  The network is the outcome of the two \<open>fetchJSON\<close> calls made for a repository:
  the GitHub API request and the request for the static file \<open>data/<name>.json\<close>.
  \<open>fetchJSON\<close> raises on a network error, on a status that is not ok, and on a body
  that is not JSON.
\<close>

record repo =
  repo_name :: string

record fetch_env =
  api_fetch :: "string \<Rightarrow> error + jsval"
  static_fetch :: "string \<Rightarrow> error + jsval"

text \<open>
  \<^verbatim>\<open>
  try {
    const data = await fetchJSON(url);
    if (data && data.workflow_runs) {
      const runs = data.workflow_runs.map(normalizeRun);
      const latestConclusion = runs.length > 0 ? runs[0].conclusion : 'unknown';
      return { runs, conclusion: latestConclusion, totalCount: data.total_count || runs.length };
    }
  } catch (apiErr) { console.warn(...); }
  \<close>
  The body of the \<open>try\<close>: \<open>Inl\<close> is an exception raised in it, \<open>Inr (Some snap)\<close> the value
  returned, \<open>Inr None\<close> falling through.
\<close>

definition api_attempt :: "string \<Rightarrow> fetch_env \<Rightarrow> repo \<Rightarrow> error + jsval option" where
  "api_attempt now env r =
     (case api_fetch env (repo_name r) of
        Inl e \<Rightarrow> Inl e
      | Inr data \<Rightarrow>
          (if truthy data \<and> truthy (field data ''workflow_runs'') then
             (case map_normalizeRun now (field data ''workflow_runs'') of
                Inl e \<Rightarrow> Inl e
              | Inr runs \<Rightarrow> Inr (Some (JObj
                  [(''runs'', JArr runs),
                   (''conclusion'', (case runs of [] \<Rightarrow> JStr ''unknown'' | r0 # _ \<Rightarrow> field r0 ''conclusion'')),
                   (''totalCount'', js_or (field data ''total_count'') (JNum (int (length runs))))])))
           else Inr None))"

text \<open>
  \<^verbatim>\<open>
  try {
    const staticData = await fetchJSON(`${dataPath}/${name}.json`);
    if (staticData && staticData.runs) {
      return {
        runs: staticData.runs.map(normalizeRun),
        conclusion: staticData.runs[0]?.conclusion || 'unknown',
        totalCount: staticData.runs.length,
        isStatic: true
      };
    }
  } catch (_) { console.warn(...); }
  return null;
  \<close>
\<close>

definition static_attempt :: "string \<Rightarrow> fetch_env \<Rightarrow> repo \<Rightarrow> error + jsval option" where
  "static_attempt now env r =
     (case static_fetch env (repo_name r) of
        Inl e \<Rightarrow> Inl e
      | Inr staticData \<Rightarrow>
          (if truthy staticData \<and> truthy (field staticData ''runs'') then
             (case map_normalizeRun now (field staticData ''runs'') of
                Inl e \<Rightarrow> Inl e
              | Inr runs \<Rightarrow> Inr (Some (JObj
                  [(''runs'', JArr runs),
                   (''conclusion'',
                      js_or (case field staticData ''runs'' of
                               JArr (r0 # _) \<Rightarrow> field r0 ''conclusion''
                             | _ \<Rightarrow> Undefined)
                            (JStr ''unknown'')),
                   (''totalCount'', JNum (int (length runs))),
                   (''isStatic'', JBool True)])))
           else Inr None))"

text \<open>
  How the promise of the async function settles. Both \<open>catch\<close> clauses swallow the
  exception and go on; after the second the function returns \<open>null\<close>.
\<close>

datatype settled = Fulfilled jsval | Rejected error

definition fetchRepoData :: "string \<Rightarrow> fetch_env \<Rightarrow> repo \<Rightarrow> settled" where
  "fetchRepoData now env r =
     (case api_attempt now env r of
        Inr (Some snap) \<Rightarrow> Fulfilled snap
      | _ \<Rightarrow>
        (case static_attempt now env r of
           Inr (Some snap) \<Rightarrow> Fulfilled snap
         | _ \<Rightarrow> Fulfilled Null))"

text \<open>
  \<^verbatim>\<open>
  const results = await Promise.allSettled(repos.map(repo => fetchRepoData(repo)));
  allRuns = [];
  repoData = {};
  results.forEach((result, idx) => {
    const repo = repos[idx];
    const key = repo.name;
    if (result.status === 'fulfilled' && result.value) {
      repoData[key] = result.value;
      allRuns.push(...(result.value.runs || []).map(r => ({ ...r, _repo: repo })));
    } else {
      repoData[key] = { runs: [], conclusion: 'unknown', error: true };
    }
  });
  \<close>
  The state is the pair of globals \<open>repoData\<close> and \<open>allRuns\<close>. \<open>obj_set\<close> is the
  assignment of a property in an object literal with a spread; the runs of a snapshot
  are objects made by \<open>normalizeRun\<close>. A value of \<open>runs\<close> that
  is truthy and not an array has no \<open>map\<close>. The sort of \<open>allRuns\<close> by date and the
  rendering come after this part of \<open>refresh\<close>, inside the same \<open>try\<close>.
\<close>

record cycle =
  repoData :: "string \<rightharpoonup> jsval"
  allRuns :: "jsval list"

definition errorSnapshot :: jsval where
  "errorSnapshot = JObj [(''runs'', JArr []), (''conclusion'', JStr ''unknown''), (''error'', JBool True)]"

fun obj_set :: "(string \<times> jsval) list \<Rightarrow> string \<Rightarrow> jsval \<Rightarrow> (string \<times> jsval) list" where
  "obj_set [] k v = [(k, v)]"
| "obj_set ((k', v') # kvs) k v = (if k' = k then (k, v) # kvs else (k', v') # obj_set kvs k v)"

definition with_repo :: "repo \<Rightarrow> jsval \<Rightarrow> jsval" where
  "with_repo r run =
     (case run of
        JObj kvs \<Rightarrow> JObj (obj_set kvs ''_repo'' (JObj [(''name'', JStr (repo_name r))]))
      | _ \<Rightarrow> JObj [(''_repo'', JObj [(''name'', JStr (repo_name r))])])"

definition collect :: "cycle \<Rightarrow> repo \<times> settled \<Rightarrow> error + cycle" where
  "collect st rr =
     (case snd rr of
        Fulfilled v \<Rightarrow>
          (if truthy v then
             (case js_or (field v ''runs'') (JArr []) of
                JArr runs \<Rightarrow>
                  Inr (st\<lparr>repoData := (repoData st)(repo_name (fst rr) \<mapsto> v),
                          allRuns := allRuns st @ map (with_repo (fst rr)) runs\<rparr>)
              | _ \<Rightarrow> Inl TypeError)
           else Inr (st\<lparr>repoData := (repoData st)(repo_name (fst rr) \<mapsto> errorSnapshot)\<rparr>))
      | Rejected e \<Rightarrow> Inr (st\<lparr>repoData := (repoData st)(repo_name (fst rr) \<mapsto> errorSnapshot)\<rparr>))"

fun collect_all :: "cycle \<Rightarrow> (repo \<times> settled) list \<Rightarrow> error + cycle" where
  "collect_all st [] = Inr st"
| "collect_all st (rr # rest) =
     (case collect st rr of Inl e \<Rightarrow> Inl e | Inr st' \<Rightarrow> collect_all st' rest)"

definition refresh_collect :: "string \<Rightarrow> fetch_env \<Rightarrow> repo list \<Rightarrow> error + cycle" where
  "refresh_collect now env repos =
     collect_all \<lparr>repoData = Map.empty, allRuns = []\<rparr>
       (zip repos (map (fetchRepoData now env) repos))"

text \<open>
  What \<open>repoData\<close> holds for a repository after the loop, and what the repository adds
  to \<open>allRuns\<close>, as functions of how its own promise settled.
\<close>

definition snapshot_for :: "string \<Rightarrow> fetch_env \<Rightarrow> repo \<Rightarrow> jsval" where
  "snapshot_for now env r =
     (case fetchRepoData now env r of
        Fulfilled v \<Rightarrow> (if truthy v then v else errorSnapshot)
      | Rejected e \<Rightarrow> errorSnapshot)"

definition runs_for :: "string \<Rightarrow> fetch_env \<Rightarrow> repo \<Rightarrow> jsval list" where
  "runs_for now env r =
     (case fetchRepoData now env r of
        Fulfilled v \<Rightarrow>
          (if truthy v then
             (case js_or (field v ''runs'') (JArr []) of
                JArr runs \<Rightarrow> map (with_repo r) runs
              | _ \<Rightarrow> [])
           else [])
      | Rejected e \<Rightarrow> [])"

section \<open>Run filters at ingestion\<close>

subsection \<open>Static data generator (generate-dashboard-data.sh)\<close>

text \<open>
  The shell script at the head of \<open>unnamed/part_000\<close>:
  \<^verbatim>\<open>
  RUNS=$(echo "$RUNS_RAW" | jq '[.workflow_runs[] | select(
    (.name // "" | ascii_downcase | contains("copilot") | not) and
    (.event != "dynamic")
  ) | {
    id,
    name: (.name // .workflow_name // "unknown"),
    status, conclusion, html_url, created_at, updated_at, head_branch, head_sha, event,
    run_number,
    run_started_at: (.run_started_at // .created_at),
    actor: (.actor // .triggering_actor // null
            | if . then {login: .login, avatar_url: .avatar_url} else null end)
  }]')
  \<close>
  jq has no \<open>undefined\<close>: a key that is not there reads as \<open>null\<close>, as does any key of
  \<open>null\<close>; reading a key of a value that is neither an object nor \<open>null\<close> is an error.
  \<open>a // b\<close> is \<open>b\<close> when \<open>a\<close> is \<open>null\<close>, \<open>false\<close> or an error. \<open>ascii_downcase\<close> is an
  error on a value that is not a string. \<open>and\<close> does not evaluate its right side when
  the left one is false. An error ends the script (\<open>set -e\<close>).
\<close>

fun jq_readable :: "jsval \<Rightarrow> bool" where
  "jq_readable (JObj kvs) = True"
| "jq_readable Null = True"
| "jq_readable _ = False"

text \<open>\<open>.k\<close> on a value whose keys can be read.\<close>

fun jq_get :: "jsval \<Rightarrow> string \<Rightarrow> jsval" where
  "jq_get (JObj kvs) k = (case map_of kvs k of None \<Rightarrow> Null | Some v \<Rightarrow> v)"
| "jq_get _ k = Null"

definition jq_alt :: "jsval \<Rightarrow> jsval \<Rightarrow> jsval" where
  "jq_alt a b = (if a = Null \<or> a = JBool False then b else a)"

definition gen_select :: "jsval \<Rightarrow> error + bool" where
  "gen_select run =
     (case (if jq_readable run then jq_alt (jq_get run ''name'') (JStr []) else JStr []) of
        JStr n \<Rightarrow>
          (if str_includes (lower n) ''copilot'' then Inr False
           else if jq_readable run then Inr (jq_get run ''event'' \<noteq> JStr ''dynamic'')
           else Inl JqError)
      | _ \<Rightarrow> Inl JqError)"

definition gen_actor :: "jsval \<Rightarrow> error + jsval" where
  "gen_actor run =
     (let a = jq_alt (jq_get run ''actor'') (jq_alt (jq_get run ''triggering_actor'') Null)
      in if a = Null \<or> a = JBool False then Inr Null
         else if jq_readable a then
           Inr (JObj [(''login'', jq_get a ''login''), (''avatar_url'', jq_get a ''avatar_url'')])
         else Inl JqError)"

definition gen_project :: "jsval \<Rightarrow> error + jsval" where
  "gen_project run =
     (if jq_readable run then
        (case gen_actor run of
           Inl e \<Rightarrow> Inl e
         | Inr a \<Rightarrow>
             Inr (JObj
               [(''id'', jq_get run ''id''),
                (''name'', jq_alt (jq_get run ''name'')
                             (jq_alt (jq_get run ''workflow_name'') (JStr ''unknown''))),
                (''status'', jq_get run ''status''),
                (''conclusion'', jq_get run ''conclusion''),
                (''html_url'', jq_get run ''html_url''),
                (''created_at'', jq_get run ''created_at''),
                (''updated_at'', jq_get run ''updated_at''),
                (''head_branch'', jq_get run ''head_branch''),
                (''head_sha'', jq_get run ''head_sha''),
                (''event'', jq_get run ''event''),
                (''run_number'', jq_get run ''run_number''),
                (''run_started_at'', jq_alt (jq_get run ''run_started_at'') (jq_get run ''created_at'')),
                (''actor'', a)]))
      else Inl JqError)"

fun gen_runs :: "jsval list \<Rightarrow> error + jsval list" where
  "gen_runs [] = Inr []"
| "gen_runs (run # rest) =
     (case gen_select run of
        Inl e \<Rightarrow> Inl e
      | Inr keep \<Rightarrow>
          (if keep then
             (case gen_project run of
                Inl e \<Rightarrow> Inl e
              | Inr out \<Rightarrow> (case gen_runs rest of Inl e \<Rightarrow> Inl e | Inr outs \<Rightarrow> Inr (out # outs)))
           else gen_runs rest))"

subsection \<open>Detail page (dashboard/repo-detail.js, loadDetail)\<close>

text \<open>
  \<^verbatim>\<open>
  // Filter CI runs (exclude release/copilot/dynamic)
  const ciRuns = staticData.runs.filter(r => {
    const name = (r.name || '').toLowerCase();
    if (name.includes('release')) return false;
    if (name.includes('copilot')) return false;
    if (r.event === 'dynamic') return false;
    return true;
  });
  \<close>
  A truthy name that is not a string has no \<open>toLowerCase\<close>.
\<close>

definition detail_keep :: "jsval \<Rightarrow> error + bool" where
  "detail_keep r =
     (if r = Undefined \<or> r = Null then Inl TypeError
      else (case js_or (field r ''name'') (JStr []) of
              JStr n \<Rightarrow>
                (if str_includes (lower n) ''release'' then Inr False
                 else if str_includes (lower n) ''copilot'' then Inr False
                 else if field r ''event'' = JStr ''dynamic'' then Inr False
                 else Inr True)
            | _ \<Rightarrow> Inl TypeError))"

fun detail_ciRuns :: "jsval list \<Rightarrow> error + jsval list" where
  "detail_ciRuns [] = Inr []"
| "detail_ciRuns (r # rest) =
     (case detail_keep r of
        Inl e \<Rightarrow> Inl e
      | Inr keep \<Rightarrow>
          (case detail_ciRuns rest of
             Inl e \<Rightarrow> Inl e
           | Inr kept \<Rightarrow> Inr (if keep then r # kept else kept)))"

text \<open>
  The rule in the words of the specification: a run is excluded when its name contains
  \<open>copilot\<close>, whatever the case of the letters, or its event is \<open>dynamic\<close>.
\<close>

definition spec_excluded :: "jsval \<Rightarrow> bool" where
  "spec_excluded run =
     ((case field run ''name'' of JStr n \<Rightarrow> str_includes (lower n) ''copilot'' | _ \<Rightarrow> False)
      \<or> field run ''event'' = JStr ''dynamic'')"

text \<open>A run whose name contains \<open>release\<close>; the detail page leaves these out as well.\<close>

definition names_release :: "jsval \<Rightarrow> bool" where
  "names_release run =
     (case field run ''name'' of JStr n \<Rightarrow> str_includes (lower n) ''release'' | _ \<Rightarrow> False)"

section \<open>Classification of jobs\<close>

subsection \<open>Engine v3.0 (CATEGORIES, classifyName, categoriseData)\<close>

text \<open>
  The script that follows the text of \<open>README.md\<close>:
  \<^verbatim>\<open>
  const CATEGORIES = [
    { key: 'lint',     ..., patterns: [/lint/i] },
    { key: 'test',     ..., patterns: [/test/i] },
    { key: 'security', ..., patterns: [/security/i, /scan/i, /sast/i, /trivy/i, /vuln/i] },
    { key: 'release',  ..., patterns: [/release/i] },
  ];

  function classifyName(name) {
    const lower = (name || '').toLowerCase();
    for (const cat of CATEGORIES) {
      for (const pattern of cat.patterns) {
        if (pattern.test(lower)) return cat.key;
      }
    }
    // Fallback: if name contains "ci status" or "ci pipeline", skip it
    if (lower.includes('ci status') || lower.includes('ci pipeline')) return null;
    return null;
  }
  \<close>
  A job name is a string (\<open>normalizeJob\<close> puts \<open>'unknown'\<close> for a missing one).
\<close>

datatype category = Lint | Test | Security | Release

definition CATEGORIES :: "(category \<times> string list) list" where
  "CATEGORIES =
     [(Lint, [''lint'']),
      (Test, [''test'']),
      (Security, [''security'', ''scan'', ''sast'', ''trivy'', ''vuln'']),
      (Release, [''release''])]"

fun classify_loop :: "(category \<times> string list) list \<Rightarrow> string \<Rightarrow> category option" where
  "classify_loop [] lower_name = None"
| "classify_loop (cat # cats) lower_name =
     (if list_ex (\<lambda>pattern. str_includes lower_name pattern) (snd cat) then Some (fst cat)
      else classify_loop cats lower_name)"

definition classifyName :: "string \<Rightarrow> category option" where
  "classifyName name = classify_loop CATEGORIES (lower name)"

text \<open>
  \<^verbatim>\<open>
  jobs.forEach(job => {
    const cat = classifyName(job.name);
    if (cat && cats[cat]) {
      cats[cat].items.push({ type: 'job', id: job.id, name: job.name, ... });
    }
  });
  \<close>
  The first loop of \<open>categoriseData\<close>. A bucket holds, in order, the jobs pushed to it;
  the record pushed for a job is stood for by the job. Every key of \<open>CATEGORIES\<close> has a
  bucket, so \<open>cats[cat]\<close> is truthy.
\<close>

definition job_name :: "jsval \<Rightarrow> string" where
  "job_name job = (case field job ''name'' of JStr n \<Rightarrow> n | _ \<Rightarrow> [])"

fun categorise_jobs :: "(category \<Rightarrow> jsval list) \<Rightarrow> jsval list \<Rightarrow> (category \<Rightarrow> jsval list)" where
  "categorise_jobs cats [] = cats"
| "categorise_jobs cats (job # rest) =
     (case classifyName (job_name job) of
        Some cat \<Rightarrow> categorise_jobs (cats(cat := cats cat @ [job])) rest
      | None \<Rightarrow> categorise_jobs cats rest)"

subsection \<open>Detail page (dashboard/repo-detail.js, renderDetail)\<close>

text \<open>
  \<^verbatim>\<open>
  const lintJob = jobs.find(j => /lint/i.test(j.name));
  const testJob = jobs.find(j => /test/i.test(j.name));
  const secJob  = jobs.find(j => /security/i.test(j.name));
  \<close>
\<close>

definition find_job :: "string \<Rightarrow> jsval list \<Rightarrow> jsval option" where
  "find_job pattern jobs = List.find (\<lambda>j. str_includes (lower (job_name j)) pattern) jobs"

definition lintJob :: "jsval list \<Rightarrow> jsval option" where
  "lintJob jobs = find_job ''lint'' jobs"

definition testJob :: "jsval list \<Rightarrow> jsval option" where
  "testJob jobs = find_job ''test'' jobs"

definition secJob :: "jsval list \<Rightarrow> jsval option" where
  "secJob jobs = find_job ''security'' jobs"

definition job_named :: "string \<Rightarrow> jsval" where
  "job_named n = JObj [(''name'', JStr n)]"

section \<open>Annotation parser (dashboard/repo-detail.js, parseKeyVal)\<close>

text \<open>
  \<^verbatim>\<open>
  function parseKeyVal(str) {
    const obj = {};
    (str || '').split('|').forEach(part => {
      const [k, v] = part.split('=');
      if (k && v !== undefined) obj[k.trim()] = v.trim();
    });
    return obj;
  }
  \<close>
  The argument is any value. A falsy one is replaced by the empty string; a truthy one
  that is not a string has no \<open>split\<close>, and the call raises a \<open>TypeError\<close>.
  The result object is the map of its own properties. \<open>parse_part\<close> is the callback of
  \<open>forEach\<close>: \<open>k\<close> is the first element of \<open>part.split('=')\<close> and \<open>v\<close> the second,
  \<open>undefined\<close> when the array has one element.

  \<open>assign_string\<close> is \<open>obj[key] = value\<close> for a string value on an object made by \<open>{}\<close>:
  the property is stored, except under the name \<open>__proto__\<close>, where the assignment goes
  to the setter that every object inherits, which ignores a string.
\<close>

definition assign_string :: "(string \<rightharpoonup> string) \<Rightarrow> string \<Rightarrow> string \<Rightarrow> (string \<rightharpoonup> string)" where
  "assign_string obj key val = (if key = ''__proto__'' then obj else obj(key \<mapsto> val))"

definition parse_part :: "(string \<rightharpoonup> string) \<Rightarrow> string \<Rightarrow> (string \<rightharpoonup> string)" where
  "parse_part obj part =
     (case split_on CHR ''='' part of
        k # v # rest \<Rightarrow> (if k \<noteq> [] then assign_string obj (trim k) (trim v) else obj)
      | _ \<Rightarrow> obj)"

definition parseKeyVal :: "jsval \<Rightarrow> error + (string \<rightharpoonup> string)" where
  "parseKeyVal str =
     (case js_or str (JStr []) of
        JStr s \<Rightarrow> Inr (foldl parse_part Map.empty (split_on CHR ''|'' s))
      | _ \<Rightarrow> Inl TypeError)"

text \<open>
  Vocabulary for statements about the parser. \<open>join_bar\<close> is \<open>segs.join('|')\<close>;
  \<open>segment\<close> writes one \<open>key=value\<close> pair; \<open>has_eq\<close> says that a segment has an \<open>=\<close>;
  \<open>seg_key\<close> and \<open>seg_val\<close> are the trimmed text before the first \<open>=\<close> and the
  trimmed text between the first \<open>=\<close> and the second (or the end).
\<close>

fun join_bar :: "string list \<Rightarrow> string" where
  "join_bar [] = []"
| "join_bar [s] = s"
| "join_bar (s # t # ss) = s @ ''|'' @ join_bar (t # ss)"

definition segment :: "string \<times> string \<Rightarrow> string" where
  "segment kv = fst kv @ ''='' @ snd kv"

definition has_eq :: "string \<Rightarrow> bool" where
  "has_eq part = (CHR ''='' \<in> set part)"

definition seg_key :: "string \<Rightarrow> string" where
  "seg_key part = trim (takeWhile (\<lambda>c. c \<noteq> CHR ''='') part)"

definition seg_val :: "string \<Rightarrow> string" where
  "seg_val part =
     trim (takeWhile (\<lambda>c. c \<noteq> CHR ''='') (drop 1 (dropWhile (\<lambda>c. c \<noteq> CHR ''='') part)))"

text \<open>
  A segment of the form \<open>key=value\<close>: it has an \<open>=\<close> and some text before the first one.
  A keyed segment is one whose trimmed key, besides, is a name under which an object
  stores a property.
\<close>

definition has_key :: "string \<Rightarrow> bool" where
  "has_key part = (has_eq part \<and> takeWhile (\<lambda>c. c \<noteq> CHR ''='') part \<noteq> [])"

definition keyed :: "string \<Rightarrow> bool" where
  "keyed part = (has_key part \<and> seg_key part \<noteq> ''__proto__'')"

text \<open>
  A well-formed list of pairs: keys are not empty, neither keys nor values contain a
  separator, and a trimmed key is a name under which an object stores a property.
  White space around keys and values is allowed.
\<close>

definition wellformed_pairs :: "(string \<times> string) list \<Rightarrow> bool" where
  "wellformed_pairs kvs =
     list_all (\<lambda>kv. fst kv \<noteq> [] \<and> CHR ''='' \<notin> set (fst kv) \<and> CHR ''|'' \<notin> set (fst kv)
                  \<and> CHR ''='' \<notin> set (snd kv) \<and> CHR ''|'' \<notin> set (snd kv)
                  \<and> trim (fst kv) \<noteq> ''__proto__'') kvs"

text \<open>
  A valid \<open>key=value|key=value\<close> string: every segment between bars is of the form
  \<open>key=value\<close>.
\<close>

definition valid_kv_string :: "string \<Rightarrow> bool" where
  "valid_kv_string s = list_all has_key (split_on CHR ''|'' s)"

section \<open>Success streak (app.js, computeStreak)\<close>

text \<open>
  \<^verbatim>\<open>
  function computeStreak() {
    let streak = 0;
    for (const run of allRuns) {
      if (run.conclusion === 'success') streak++;
      else break;
    }
    return streak;
  }
  \<close>
  The global list \<open>allRuns\<close> of normalized runs is the argument \<open>runs\<close> here.
\<close>

fun streak_loop :: "nat \<Rightarrow> jsval list \<Rightarrow> nat" where
  "streak_loop streak [] = streak"
| "streak_loop streak (run # rest) =
     (if field run ''conclusion'' = JStr ''success'' then streak_loop (streak + 1) rest
      else streak)"

definition computeStreak :: "jsval list \<Rightarrow> nat" where
  "computeStreak runs = streak_loop 0 runs"

definition run_with_conclusion :: "string \<Rightarrow> jsval" where
  "run_with_conclusion c = JObj [(''conclusion'', JStr c)]"

section \<open>Pass rate (app.js, renderSummary)\<close>










text \<open>
  \<open>x.toFixed(1)\<close> for \<open>0 \<le> x < 10^21\<close>: with \<open>n\<close> the integer for which \<open>n / 10 - x\<close> is
  closest to zero, the larger one if there are two, the decimal digits of \<open>n\<close> with a
  point before the last. \<open>decimal1 n\<close> writes \<open>n\<close> tenths.
\<close>

fun digits :: "nat \<Rightarrow> string" where
  "digits n =
     (if n < 10 then [''0123456789'' ! n]
      else digits (n div 10) @ [''0123456789'' ! (n mod 10)])"

declare digits.simps [simp del]

definition decimal1 :: "nat \<Rightarrow> string" where
  "decimal1 n = digits (n div 10) @ ''.'' @ digits (n mod 10)"




section \<open>Example data\<close>

text \<open>
  Two repositories in one refresh cycle: every fetch for \<open>repo-a\<close> fails, the API
  answers for \<open>repo-b\<close> with one run.
\<close>

definition example_repos :: "repo list" where
  "example_repos = [\<lparr>repo_name = ''repo-a''\<rparr>, \<lparr>repo_name = ''repo-b''\<rparr>]"

definition example_env :: fetch_env where
  "example_env =
     \<lparr>api_fetch = (\<lambda>n. if n = ''repo-b''
          then Inr (JObj [(''total_count'', JNum 1),
                 (''workflow_runs'', JArr [JObj [(''id'', JNum 1), (''name'', JStr ''CI''),
                    (''conclusion'', JStr ''success''),
                    (''created_at'', JStr ''2026-01-01T00:00:00Z'')]])])
          else Inl FetchError),
      static_fetch = (\<lambda>n. Inl FetchError)\<rparr>"

text \<open>A run that the filtering rule excludes twice over, and the API answer that carries it.\<close>

definition copilot_run :: jsval where
  "copilot_run = JObj [(''id'', JNum 9), (''name'', JStr ''Copilot review''), (''event'', JStr ''dynamic'')]"

definition copilot_env :: fetch_env where
  "copilot_env =
     \<lparr>api_fetch = (\<lambda>n. Inr (JObj [(''workflow_runs'', JArr [copilot_run])])),
      static_fetch = (\<lambda>n. Inl FetchError)\<rparr>"

definition static_copilot_env :: fetch_env where
  "static_copilot_env =
     \<lparr>api_fetch = (\<lambda>n. Inl FetchError),
      static_fetch = (\<lambda>n. Inr (JObj [(''runs'', JArr [copilot_run])]))\<rparr>"

definition ci_run :: jsval where
  "ci_run = JObj [(''id'', JNum 2), (''name'', JStr ''CI''), (''event'', JStr ''push'')]"

definition four_jobs :: "jsval list" where
  "four_jobs = map job_named [''Run Lint'', ''Unit Test Suite'', ''Trivy Scan'', ''Deploy Release'']"

section \<open>Properties of strings\<close>

lemma split_on_not_empty [simp]: "split_on c s \<noteq> []"
  by (induction s) (auto split: list.splits)

lemma split_on_no_separator: "c \<notin> set s \<Longrightarrow> split_on c s = [s]"
  by (induction s) auto

lemma split_on_append: "c \<notin> set s \<Longrightarrow> split_on c (s @ c # t) = s # split_on c t"
  by (induction s) auto

lemma split_on_unfold:
  "split_on c s = takeWhile (\<lambda>x. x \<noteq> c) s #
     (case dropWhile (\<lambda>x. x \<noteq> c) s of [] \<Rightarrow> [] | _ # r \<Rightarrow> split_on c r)"
  by (induction s) (auto split: list.splits)

lemma split_on_join_bar:
  "segs \<noteq> [] \<Longrightarrow> \<forall>s\<in>set segs. CHR ''|'' \<notin> set s \<Longrightarrow>
     split_on CHR ''|'' (join_bar segs) = segs"
proof (induction segs rule: join_bar.induct)
  case 1
  then show ?case by simp
next
  case (2 s)
  then show ?case by (simp add: split_on_no_separator)
next
  case (3 s t ss)
  then show ?case
    using split_on_append[of "CHR ''|''" s "join_bar (t # ss)"] by simp
qed

lemma takeWhile_sep: "c \<notin> set k \<Longrightarrow> takeWhile (\<lambda>x. x \<noteq> c) (k @ c # r) = k"
  by (induction k) auto

lemma dropWhile_sep: "c \<notin> set k \<Longrightarrow> dropWhile (\<lambda>x. x \<noteq> c) (k @ c # r) = c # r"
  by (induction k) auto

lemma takeWhile_no_sep: "c \<notin> set v \<Longrightarrow> takeWhile (\<lambda>x. x \<noteq> c) v = v"
  by (induction v) auto

text \<open>\<open>str_includes\<close> is the test for a substring.\<close>

lemma is_prefix_iff: "is_prefix p s = (\<exists>t. s = p @ t)"
  by (induction p s rule: is_prefix.induct) auto

lemma str_includes_iff: "str_includes s pat = (\<exists>a b. s = a @ pat @ b)"
proof (induction s)
  case Nil
  then show ?case by auto
next
  case (Cons c cs)
  have "(\<exists>a b. c # cs = a @ pat @ b) = ((\<exists>b. c # cs = pat @ b) \<or> (\<exists>a b. cs = a @ pat @ b))"
  proof
    assume "\<exists>a b. c # cs = a @ pat @ b"
    then obtain a b where e: "c # cs = a @ pat @ b" by blast
    show "(\<exists>b. c # cs = pat @ b) \<or> (\<exists>a b. cs = a @ pat @ b)"
    proof (cases a)
      case Nil
      then show ?thesis using e by auto
    next
      case (Cons x a')
      then have "cs = a' @ pat @ b" using e by simp
      then show ?thesis by blast
    qed
  next
    assume "(\<exists>b. c # cs = pat @ b) \<or> (\<exists>a b. cs = a @ pat @ b)"
    then show "\<exists>a b. c # cs = a @ pat @ b"
    proof
      assume "\<exists>b. c # cs = pat @ b"
      then obtain b where "c # cs = [] @ pat @ b" by auto
      then show ?thesis by blast
    next
      assume "\<exists>a b. cs = a @ pat @ b"
      then obtain a b where "c # cs = (c # a) @ pat @ b" by auto
      then show ?thesis by blast
    qed
  qed
  then show ?case using Cons by (simp add: is_prefix_iff)
qed

section \<open>Properties of the annotation parser\<close>

lemma dropWhile_nil_iff_has_eq:
  "(dropWhile (\<lambda>c. c \<noteq> CHR ''='') part = []) = (\<not> has_eq part)"
  by (auto simp: has_eq_def dropWhile_eq_Nil_conv)

text \<open>The callback records a pair exactly for the keyed segments.\<close>

lemma parse_part_eq:
  "parse_part obj part = (if keyed part then obj(seg_key part \<mapsto> seg_val part) else obj)"
proof (cases "dropWhile (\<lambda>c. c \<noteq> CHR ''='') part")
  case Nil
  then have "\<not> has_eq part"
    using dropWhile_nil_iff_has_eq by blast
  moreover have "split_on CHR ''='' part = [takeWhile (\<lambda>c. c \<noteq> CHR ''='') part]"
    by (subst split_on_unfold) (simp only: Nil list.case)
  ultimately show ?thesis
    by (simp add: parse_part_def keyed_def has_key_def)
next
  case (Cons x r)
  then have h: "has_eq part"
    using dropWhile_nil_iff_has_eq[of part] by simp
  have "split_on CHR ''='' part =
          takeWhile (\<lambda>c. c \<noteq> CHR ''='') part # takeWhile (\<lambda>c. c \<noteq> CHR ''='') r #
            (case dropWhile (\<lambda>c. c \<noteq> CHR ''='') r of [] \<Rightarrow> [] | _ # r' \<Rightarrow> split_on CHR ''='' r')"
    by (subst split_on_unfold, simp only: Cons list.case, subst split_on_unfold, rule refl)
  then show ?thesis
    using h Cons
    by (simp add: parse_part_def keyed_def has_key_def seg_key_def seg_val_def assign_string_def)
qed

lemma foldl_parse_part:
  "foldl parse_part m segs =
     m ++ map_of (rev (map (\<lambda>p. (seg_key p, seg_val p)) (filter keyed segs)))"
proof (induction segs arbitrary: m)
  case Nil
  then show ?case by simp
next
  case (Cons p ps)
  let ?M = "map_of (rev (map (\<lambda>p. (seg_key p, seg_val p)) (filter keyed ps)))"
  show ?case
  proof (cases "keyed p")
    case True
    have "foldl parse_part m (p # ps) = foldl parse_part (m(seg_key p \<mapsto> seg_val p)) ps"
      by (simp only: foldl_Cons parse_part_eq[of m p] True if_True)
    also have "\<dots> = m(seg_key p \<mapsto> seg_val p) ++ ?M"
      by (rule Cons)
    also have "\<dots> = m ++ ([seg_key p \<mapsto> seg_val p] ++ ?M)"
      by (rule ext) (simp add: map_add_def split: option.splits)
    also have "[seg_key p \<mapsto> seg_val p] ++ ?M =
        map_of (rev (map (\<lambda>p. (seg_key p, seg_val p)) (filter keyed (p # ps))))"
      using True by simp
    finally show ?thesis .
  next
    case False
    have "foldl parse_part m (p # ps) = foldl parse_part m ps"
      by (simp only: foldl_Cons parse_part_eq[of m p] False if_False)
    then show ?thesis
      using False Cons[of m] by simp
  qed
qed

lemma parseKeyVal_string:
  "parseKeyVal (JStr s) = Inr (foldl parse_part Map.empty (split_on CHR ''|'' s))"
  by (simp add: parseKeyVal_def js_or_def)

lemma parseKeyVal_entries:
  "parseKeyVal (JStr s) =
     Inr (map_of (rev (map (\<lambda>p. (seg_key p, seg_val p)) (filter keyed (split_on CHR ''|'' s)))))"
  by (simp add: parseKeyVal_string foldl_parse_part)

lemma seg_key_segment: "CHR ''='' \<notin> set k \<Longrightarrow> seg_key (k @ CHR ''='' # r) = trim k"
  by (simp add: seg_key_def takeWhile_sep)

lemma seg_val_segment:
  "CHR ''='' \<notin> set k \<Longrightarrow> CHR ''='' \<notin> set v \<Longrightarrow> seg_val (k @ CHR ''='' # v) = trim v"
  by (simp add: seg_val_def dropWhile_sep takeWhile_no_sep)

lemma seg_val_segment2:
  "CHR ''='' \<notin> set k \<Longrightarrow> CHR ''='' \<notin> set v \<Longrightarrow>
     seg_val (k @ CHR ''='' # v @ CHR ''='' # r) = trim v"
  by (simp add: seg_val_def dropWhile_sep takeWhile_sep)

lemma keyed_segment:
  "CHR ''='' \<notin> set k \<Longrightarrow> keyed (k @ CHR ''='' # r) = (k \<noteq> [] \<and> trim k \<noteq> ''__proto__'')"
  by (simp add: keyed_def has_key_def has_eq_def seg_key_def takeWhile_sep)

lemma parseKeyVal_pairs:
  assumes "wellformed_pairs kvs"
  shows "parseKeyVal (JStr (join_bar (map segment kvs))) =
           Inr (map_of (rev (map (\<lambda>kv. (trim (fst kv), trim (snd kv))) kvs)))"
proof (cases "kvs = []")
  case True
  then show ?thesis by (simp add: parseKeyVal_string parse_part_def)
next
  case False
  have bar: "\<forall>s\<in>set (map segment kvs). CHR ''|'' \<notin> set s"
    using assms by (auto simp: wellformed_pairs_def list_all_iff segment_def)
  have split: "split_on CHR ''|'' (join_bar (map segment kvs)) = map segment kvs"
    using False bar by (intro split_on_join_bar) auto
  have k: "\<forall>kv\<in>set kvs. keyed (segment kv)"
    using assms by (auto simp: wellformed_pairs_def list_all_iff segment_def keyed_segment)
  have e: "\<forall>kv\<in>set kvs.
             (seg_key (segment kv), seg_val (segment kv)) = (trim (fst kv), trim (snd kv))"
    using assms
    by (auto simp: wellformed_pairs_def list_all_iff segment_def seg_key_segment seg_val_segment)
  have "filter keyed (map segment kvs) = map segment kvs"
    using k by (simp add: filter_id_conv)
  moreover have "map (\<lambda>p. (seg_key p, seg_val p)) (map segment kvs) =
                 map (\<lambda>kv. (trim (fst kv), trim (snd kv))) kvs"
    using e by simp
  ultimately show ?thesis
    by (simp only: parseKeyVal_entries split)
qed

lemma parseKeyVal_skips:
  "parseKeyVal (JStr s) =
     Inr (foldl parse_part Map.empty (filter has_eq (split_on CHR ''|'' s)))"
proof -
  have "filter keyed (filter has_eq xs) = filter keyed xs" for xs
    by (induction xs) (auto simp: keyed_def has_key_def)
  then show ?thesis
    by (simp add: parseKeyVal_string foldl_parse_part)
qed

lemma parseKeyVal_falsy: "\<not> truthy v \<Longrightarrow> parseKeyVal v = Inr Map.empty"
  by (simp add: parseKeyVal_def js_or_def parse_part_def)

lemma parseKeyVal_raises:
  "(parseKeyVal v = Inl TypeError) = (case v of JStr s \<Rightarrow> False | _ \<Rightarrow> truthy v)"
  by (cases v) (simp_all add: parseKeyVal_def js_or_def parse_part_def)

lemma map_of_rev_last:
  assumes "\<forall>q\<in>set qs. fst (f q) \<noteq> fst (f p)"
  shows "map_of (rev (map f (ps @ p # qs))) (fst (f p)) = Some (snd (f p))"
proof -
  have "map_of (rev (map f qs)) (fst (f p)) = None"
    using assms by (force simp: map_of_eq_None_iff image_iff)
  then show ?thesis
    by (simp add: map_add_def)
qed

text \<open>
  Claim C2. The parser raises a \<open>TypeError\<close> exactly on the truthy values that are not
  strings (\<open>parseKeyVal(42)\<close>), and returns a map on every string and on every falsy
  value. For a list of pairs whose keys are not empty and not the name \<open>__proto__\<close> once
  trimmed, and whose keys and values hold no \<open>=\<close> and no \<open>|\<close> (white space allowed around
  them), the parser applied to \<open>key1=val1|key2=val2|...\<close> returns the map from each
  trimmed key to its trimmed value. For every string, the segments without an \<open>=\<close>
  change nothing: parsing the string gives what parsing only its segments with an \<open>=\<close>
  gives. A falsy message (\<open>null\<close>, \<open>undefined\<close>, the empty string) gives the empty map.
  \<open>errors=3|files=12\<close> parses to \<open>{errors: 3, files: 12}\<close> and \<open>bad\<close> to \<open>{}\<close>.
\<close>

theorem parseKeyVal_contract:
  assumes "wellformed_pairs kvs"
  shows "parseKeyVal (JStr (join_bar (map segment kvs))) =
           Inr (map_of (rev (map (\<lambda>kv. (trim (fst kv), trim (snd kv))) kvs)))
       \<and> parseKeyVal (JStr s) =
           Inr (foldl parse_part Map.empty (filter has_eq (split_on CHR ''|'' s)))
       \<and> (\<not> truthy u \<longrightarrow> parseKeyVal u = Inr Map.empty)
       \<and> parseKeyVal Null = Inr Map.empty
       \<and> parseKeyVal Undefined = Inr Map.empty
       \<and> parseKeyVal (JStr []) = Inr Map.empty
       \<and> (parseKeyVal w = Inl TypeError) = (case w of JStr t \<Rightarrow> False | _ \<Rightarrow> truthy w)
       \<and> (\<exists>m. parseKeyVal w = Inr m) = (case w of JStr t \<Rightarrow> True | _ \<Rightarrow> \<not> truthy w)
       \<and> parseKeyVal (JStr ''errors=3|files=12'') =
           Inr [''errors'' \<mapsto> ''3'', ''files'' \<mapsto> ''12'']
       \<and> parseKeyVal (JStr ''bad'') = Inr Map.empty"
proof -
  have f: "parseKeyVal Null = Inr Map.empty" "parseKeyVal Undefined = Inr Map.empty"
    "parseKeyVal (JStr []) = Inr Map.empty"
    by (simp_all add: parseKeyVal_falsy)
  have e: "parseKeyVal (JStr ''errors=3|files=12'') =
             Inr [''errors'' \<mapsto> ''3'', ''files'' \<mapsto> ''12'']"
    "parseKeyVal (JStr ''bad'') = Inr Map.empty"
    by (simp_all add: parseKeyVal_string parse_part_def assign_string_def trim_def is_ws_def
          white_space_def)
  have r: "(\<exists>m. parseKeyVal w = Inr m) = (case w of JStr t \<Rightarrow> True | _ \<Rightarrow> \<not> truthy w)"
    by (cases w) (simp_all add: parseKeyVal_def js_or_def)
  show ?thesis
    using parseKeyVal_pairs[OF assms] parseKeyVal_skips[of s] parseKeyVal_falsy[of u]
      parseKeyVal_raises[of w] f e r
    by simp
qed

theorem parseKeyVal_contract_witness:
  "wellformed_pairs [('' errors '', '' 3''), (''files'', ''12 '')]
   \<and> \<not> truthy (JNum 0)
   \<and> parseKeyVal (JStr '' errors = 3|files=12 '') =
       Inr [''errors'' \<mapsto> ''3'', ''files'' \<mapsto> ''12'']
   \<and> parseKeyVal (JNum 0) = Inr Map.empty
   \<and> parseKeyVal (JBool True) = Inl TypeError"
proof -
  have w: "wellformed_pairs [('' errors '', '' 3''), (''files'', ''12 '')]"
    by (simp add: wellformed_pairs_def trim_def is_ws_def white_space_def)
  have j: "join_bar (map segment [('' errors '', '' 3''), (''files'', ''12 '')]) =
             '' errors = 3|files=12 ''"
    by (simp add: segment_def)
  have m: "map_of (rev (map (\<lambda>kv. (trim (fst kv), trim (snd kv)))
              [('' errors '', '' 3''), (''files'', ''12 '')])) =
           [''errors'' \<mapsto> ''3'', ''files'' \<mapsto> ''12'']"
    by (simp add: trim_def is_ws_def white_space_def)
  from parseKeyVal_contract[OF w, of "[]" "JNum 0" "JBool True"]
  have a: "parseKeyVal (JStr (join_bar (map segment [('' errors '', '' 3''), (''files'', ''12 '')]))) =
          Inr (map_of (rev (map (\<lambda>kv. (trim (fst kv), trim (snd kv)))
            [('' errors '', '' 3''), (''files'', ''12 '')])))"
    and b: "\<not> truthy (JNum 0) \<longrightarrow> parseKeyVal (JNum 0) = Inr Map.empty"
    and c: "(parseKeyVal (JBool True) = Inl TypeError) =
           (case JBool True of JStr t \<Rightarrow> False | _ \<Rightarrow> truthy (JBool True))"
    by blast+
  have p1: "parseKeyVal (JStr '' errors = 3|files=12 '') =
              Inr [''errors'' \<mapsto> ''3'', ''files'' \<mapsto> ''12'']"
    using a by (simp only: j m)
  have p2: "\<not> truthy (JNum 0)" "parseKeyVal (JNum 0) = Inr Map.empty"
    using b by simp_all
  have p3: "parseKeyVal (JBool True) = Inl TypeError"
    using c by simp
  show ?thesis
    using w p1 p2 p3 by blast
qed

text \<open>
  The contract as first stated has two exceptions. A truthy value that is not a string
  makes the parser raise: \<open>parseKeyVal(42)\<close> is a \<open>TypeError\<close>. And a string value
  assigned to \<open>__proto__\<close> leaves no property: \<open>__proto__=1\<close>, a string of the form
  \<open>key=val\<close>, parses to \<open>{}\<close> and not to the map from \<open>__proto__\<close> to \<open>1\<close>.
\<close>

theorem parseKeyVal_contract_counterexample:
  "parseKeyVal (JNum 42) = Inl TypeError
   \<and> parseKeyVal (JStr ''__proto__=1'') = Inr Map.empty
   \<and> parseKeyVal (JStr ''__proto__=1'') \<noteq> Inr [''__proto__'' \<mapsto> ''1'']"
proof -
  have a: "parseKeyVal (JNum 42) = Inl TypeError"
    by (simp add: parseKeyVal_def js_or_def)
  have b: "parseKeyVal (JStr ''__proto__=1'') = Inr Map.empty"
    by (simp add: parseKeyVal_string parse_part_def assign_string_def trim_def is_ws_def
          white_space_def)
  have "(Map.empty :: string \<rightharpoonup> string) ''__proto__'' \<noteq> [''__proto__'' \<mapsto> ''1''] ''__proto__''"
    by simp
  then have "(Map.empty :: string \<rightharpoonup> string) \<noteq> [''__proto__'' \<mapsto> ''1'']"
    by metis
  then show ?thesis
    using a b by simp
qed

text \<open>
  Claim C9. For every string, the keys of the parsed map are the trimmed keys of the
  segments of the form \<open>key=value\<close> whose trimmed key is not \<open>__proto__\<close>, wherever they
  stand: a segment without an \<open>=\<close> is skipped and the segments after it are parsed as
  well. A key that occurs several times has the value of its last occurrence: whenever
  no later such segment has the key of a segment, the map gives that key the value of
  that segment. For a valid \<open>key=value|key=value\<close> string with no key \<open>__proto__\<close> the
  keys are those of all its segments.
\<close>

theorem parseKeyVal_keys_last_wins:
  "\<exists>m. parseKeyVal (JStr s) = Inr m
     \<and> dom m = seg_key ` {p \<in> set (split_on CHR ''|'' s). keyed p}
     \<and> (\<forall>ps p qs. split_on CHR ''|'' s = ps @ p # qs \<and> keyed p
                    \<and> (\<forall>q\<in>set qs. keyed q \<longrightarrow> seg_key q \<noteq> seg_key p)
           \<longrightarrow> m (seg_key p) = Some (seg_val p))
     \<and> (valid_kv_string s \<and> (\<forall>p\<in>set (split_on CHR ''|'' s). seg_key p \<noteq> ''__proto__'')
           \<longrightarrow> dom m = seg_key ` set (split_on CHR ''|'' s))"
proof -
  let ?segs = "split_on CHR ''|'' s"
  let ?f = "\<lambda>p. (seg_key p, seg_val p)"
  let ?m = "map_of (rev (map ?f (filter keyed ?segs)))"
  have eq: "parseKeyVal (JStr s) = Inr ?m"
    by (rule parseKeyVal_entries)
  have d: "dom ?m = seg_key ` {p \<in> set ?segs. keyed p}"
    by (simp add: dom_map_of_conv_image_fst image_image)
  have l: "?m (seg_key p) = Some (seg_val p)"
    if s: "?segs = ps @ p # qs" and k: "keyed p"
      and n: "\<forall>q\<in>set qs. keyed q \<longrightarrow> seg_key q \<noteq> seg_key p" for ps p qs
  proof -
    have "filter keyed ?segs = filter keyed ps @ p # filter keyed qs"
      using k by (simp add: s)
    moreover have "\<forall>q\<in>set (filter keyed qs). fst (?f q) \<noteq> fst (?f p)"
      using n by simp
    ultimately show ?thesis
      using map_of_rev_last[of "filter keyed qs" ?f p "filter keyed ps"] by simp
  qed
  have v: "dom ?m = seg_key ` set ?segs"
    if "valid_kv_string s" "\<forall>p\<in>set ?segs. seg_key p \<noteq> ''__proto__''"
  proof -
    have "{p \<in> set ?segs. keyed p} = set ?segs"
      using that by (auto simp: valid_kv_string_def list_all_iff keyed_def)
    then show ?thesis
      by (simp only: d)
  qed
  have L: "\<forall>ps p qs. ?segs = ps @ p # qs \<and> keyed p
                    \<and> (\<forall>q\<in>set qs. keyed q \<longrightarrow> seg_key q \<noteq> seg_key p)
             \<longrightarrow> ?m (seg_key p) = Some (seg_val p)"
    using l by blast
  have V: "valid_kv_string s \<and> (\<forall>p\<in>set ?segs. seg_key p \<noteq> ''__proto__'')
             \<longrightarrow> dom ?m = seg_key ` set ?segs"
    using v by blast
  show ?thesis
    by (rule exI[of _ ?m]) (intro conjI eq d L V)
qed

theorem parseKeyVal_keys_last_wins_witness:
  "split_on CHR ''|'' ''a=1|bad|a=3|b=2'' = [''a=1'', ''bad''] @ ''a=3'' # [''b=2'']
   \<and> keyed ''a=3'' \<and> seg_key ''b=2'' \<noteq> seg_key ''a=3''
   \<and> valid_kv_string ''a=1|b=2|a=3''
   \<and> seg_key ''a=1'' \<noteq> ''__proto__'' \<and> seg_key ''b=2'' \<noteq> ''__proto__''
   \<and> seg_key ''a=3'' \<noteq> ''__proto__''
   \<and> (\<exists>m. parseKeyVal (JStr ''a=1|bad|a=3|b=2'') = Inr m
          \<and> dom m = {''a'', ''b''} \<and> m ''a'' = Some ''3'')
   \<and> (\<exists>m. parseKeyVal (JStr ''a=1|b=2|a=3'') = Inr m \<and> dom m = {''a'', ''b''})"
proof -
  have k: "seg_key ''a=3'' = ''a''" "seg_val ''a=3'' = ''3''"
          "seg_key ''a=1'' = ''a''" "seg_key ''b=2'' = ''b''" "seg_key ''bad'' = ''bad''"
    by (simp_all add: seg_key_def seg_val_def trim_def is_ws_def white_space_def)
  have y: "keyed ''a=1''" "keyed ''a=3''" "keyed ''b=2''" "\<not> keyed ''bad''"
    by (simp_all add: keyed_def has_key_def has_eq_def k)
  have s1: "split_on CHR ''|'' ''a=1|bad|a=3|b=2'' = [''a=1'', ''bad''] @ ''a=3'' # [''b=2'']"
    by simp
  have s2: "split_on CHR ''|'' ''a=1|b=2|a=3'' = [''a=1'', ''b=2'', ''a=3'']"
    by simp
  have n: "\<forall>q\<in>set [''b=2'']. keyed q \<longrightarrow> seg_key q \<noteq> seg_key ''a=3''"
    by (simp add: k)
  have v: "valid_kv_string ''a=1|b=2|a=3''"
    using y by (simp add: valid_kv_string_def s2 keyed_def)
  have p: "\<forall>p\<in>set (split_on CHR ''|'' ''a=1|b=2|a=3''). seg_key p \<noteq> ''__proto__''"
    by (simp add: s2 k)
  from parseKeyVal_keys_last_wins[of "''a=1|bad|a=3|b=2''"]
  obtain m where m: "parseKeyVal (JStr ''a=1|bad|a=3|b=2'') = Inr m"
    and d: "dom m = seg_key ` {p \<in> set (split_on CHR ''|'' ''a=1|bad|a=3|b=2''). keyed p}"
    and l: "\<forall>ps p qs. split_on CHR ''|'' ''a=1|bad|a=3|b=2'' = ps @ p # qs \<and> keyed p
              \<and> (\<forall>q\<in>set qs. keyed q \<longrightarrow> seg_key q \<noteq> seg_key p) \<longrightarrow>
              m (seg_key p) = Some (seg_val p)"
    by (elim exE conjE)
  have c: "{p \<in> set (split_on CHR ''|'' ''a=1|bad|a=3|b=2''). keyed p} =
             {''a=1'', ''a=3'', ''b=2''}"
    using y by (simp only: s1) auto
  have d1: "dom m = {''a'', ''b''}"
    by (simp only: d c) (simp add: k)
  have "split_on CHR ''|'' ''a=1|bad|a=3|b=2'' = [''a=1'', ''bad''] @ ''a=3'' # [''b=2'']
          \<and> keyed ''a=3'' \<and> (\<forall>q\<in>set [''b=2'']. keyed q \<longrightarrow> seg_key q \<noteq> seg_key ''a=3'')
        \<longrightarrow> m (seg_key ''a=3'') = Some (seg_val ''a=3'')"
    using l by (elim allE)
  then have "m (seg_key ''a=3'') = Some (seg_val ''a=3'')"
    using s1 y(2) n by (elim impE) (intro conjI)
  then have l1: "m ''a'' = Some ''3''"
    by (simp only: k)
  have e1: "\<exists>m. parseKeyVal (JStr ''a=1|bad|a=3|b=2'') = Inr m
                \<and> dom m = {''a'', ''b''} \<and> m ''a'' = Some ''3''"
    by (rule exI[of _ m]) (intro conjI m d1 l1)
  from parseKeyVal_keys_last_wins[of "''a=1|b=2|a=3''"]
  obtain m' where m': "parseKeyVal (JStr ''a=1|b=2|a=3'') = Inr m'"
    and d': "valid_kv_string ''a=1|b=2|a=3''
               \<and> (\<forall>p\<in>set (split_on CHR ''|'' ''a=1|b=2|a=3''). seg_key p \<noteq> ''__proto__'')
             \<longrightarrow> dom m' = seg_key ` set (split_on CHR ''|'' ''a=1|b=2|a=3'')"
    by (elim exE conjE)
  have "dom m' = seg_key ` set (split_on CHR ''|'' ''a=1|b=2|a=3'')"
    using d' v p by (elim impE) (intro conjI)
  then have d2: "dom m' = {''a'', ''b''}"
    by (simp only: s2) (auto simp: k)
  have e2: "\<exists>m. parseKeyVal (JStr ''a=1|b=2|a=3'') = Inr m \<and> dom m = {''a'', ''b''}"
    by (rule exI[of _ m']) (intro conjI m' d2)
  have q: "seg_key ''b=2'' \<noteq> seg_key ''a=3''" "seg_key ''a=1'' \<noteq> ''__proto__''"
    "seg_key ''b=2'' \<noteq> ''__proto__''" "seg_key ''a=3'' \<noteq> ''__proto__''"
    by (simp_all add: k)
  show ?thesis
    by (intro conjI s1 y(2) q v e1 e2)
qed

text \<open>
  The key set is not that of the segments before the first segment without an \<open>=\<close>.
  \<open>a=1|__proto__=2\<close> is a valid string and all its segments have an \<open>=\<close>, yet the only
  key of the result is \<open>a\<close>. In \<open>a=1|bad|b=2\<close> only \<open>a=1\<close> stands before the segment
  without an \<open>=\<close>, and the result has the keys \<open>a\<close> and \<open>b\<close>.
\<close>

theorem parseKeyVal_keys_counterexample:
  "valid_kv_string ''a=1|__proto__=2''
   \<and> parseKeyVal (JStr ''a=1|__proto__=2'') = Inr [''a'' \<mapsto> ''1'']
   \<and> seg_key ` set (takeWhile has_eq (split_on CHR ''|'' ''a=1|__proto__=2'')) =
       {''a'', ''__proto__''}
   \<and> dom [''a'' \<mapsto> ''1''] \<noteq> {''a'', ''__proto__''}
   \<and> parseKeyVal (JStr ''a=1|bad|b=2'') = Inr [''a'' \<mapsto> ''1'', ''b'' \<mapsto> ''2'']
   \<and> seg_key ` set (takeWhile has_eq (split_on CHR ''|'' ''a=1|bad|b=2'')) = {''a''}
   \<and> dom [''a'' \<mapsto> ''1'', ''b'' \<mapsto> ''2''] \<noteq> {''a''}"
proof -
  have v: "valid_kv_string ''a=1|__proto__=2''"
    by (simp add: valid_kv_string_def has_key_def has_eq_def)
  have p: "parseKeyVal (JStr ''a=1|__proto__=2'') = Inr [''a'' \<mapsto> ''1'']"
    "parseKeyVal (JStr ''a=1|bad|b=2'') = Inr [''a'' \<mapsto> ''1'', ''b'' \<mapsto> ''2'']"
    by (simp_all add: parseKeyVal_string parse_part_def assign_string_def trim_def is_ws_def
          white_space_def)
  have k: "seg_key ` set (takeWhile has_eq (split_on CHR ''|'' ''a=1|__proto__=2'')) =
             {''a'', ''__proto__''}"
    "seg_key ` set (takeWhile has_eq (split_on CHR ''|'' ''a=1|bad|b=2'')) = {''a''}"
    by (simp_all add: has_eq_def seg_key_def trim_def is_ws_def white_space_def)
  have d: "dom [''a'' \<mapsto> ''1''] \<noteq> {''a'', ''__proto__''}"
    "dom [''a'' \<mapsto> ''1'', ''b'' \<mapsto> ''2''] \<noteq> {''a''}"
    by auto
  show ?thesis
    using v p k d by simp
qed

text \<open>
  Claim C10. A segment with two or more \<open>=\<close> is \<open>k=v=rest\<close> with no \<open>=\<close> in \<open>k\<close> and
  \<open>v\<close>. The callback assigns the trimmed \<open>v\<close>, the text between the first and the second
  \<open>=\<close>, to the trimmed \<open>k\<close> (and does nothing when \<open>k\<close> is empty); what follows the
  second \<open>=\<close> has no effect, the result being that of the segment \<open>k=v\<close>. As a whole
  message, \<open>k=v=rest\<close> with a key parses to the one-entry map; \<open>a=b=c\<close> gives \<open>{a: b}\<close>.
\<close>

theorem parseKeyVal_second_equals_discarded:
  assumes "CHR ''='' \<notin> set k" and "CHR ''='' \<notin> set v"
  shows "parse_part obj (k @ ''='' @ v @ ''='' @ rest) =
           (if k = [] then obj else assign_string obj (trim k) (trim v))
       \<and> parse_part obj (k @ ''='' @ v @ ''='' @ rest) = parse_part obj (k @ ''='' @ v)
       \<and> (k \<noteq> [] \<and> trim k \<noteq> ''__proto__'' \<and> CHR ''|'' \<notin> set (k @ v @ rest) \<longrightarrow>
            parseKeyVal (JStr (k @ ''='' @ v @ ''='' @ rest)) = Inr [trim k \<mapsto> trim v])"
proof -
  have a: "parse_part obj (k @ ''='' @ v @ ''='' @ rest) =
           (if k = [] then obj else assign_string obj (trim k) (trim v))" for obj
    using assms
    by (simp add: parse_part_eq keyed_segment seg_key_segment seg_val_segment2 assign_string_def)
  have b: "parse_part obj (k @ ''='' @ v) =
           (if k = [] then obj else assign_string obj (trim k) (trim v))"
    using assms
    by (simp add: parse_part_eq keyed_segment seg_key_segment seg_val_segment assign_string_def)
  have c: "parseKeyVal (JStr (k @ ''='' @ v @ ''='' @ rest)) = Inr [trim k \<mapsto> trim v]"
    if "k \<noteq> []" "trim k \<noteq> ''__proto__''" "CHR ''|'' \<notin> set (k @ v @ rest)"
  proof -
    have "split_on CHR ''|'' (k @ ''='' @ v @ ''='' @ rest) = [k @ ''='' @ v @ ''='' @ rest]"
      using that by (intro split_on_no_separator) simp
    then show ?thesis
      using a[of Map.empty] that by (simp add: parseKeyVal_string assign_string_def)
  qed
  show ?thesis
    using a b c by simp
qed

theorem parseKeyVal_second_equals_discarded_witness:
  "CHR ''='' \<notin> set ''a'' \<and> CHR ''='' \<notin> set ''b'' \<and> ''a'' \<noteq> [] \<and> trim ''a'' \<noteq> ''__proto__''
   \<and> CHR ''|'' \<notin> set (''a'' @ ''b'' @ ''c'')
   \<and> parseKeyVal (JStr ''a=b=c'') = Inr [''a'' \<mapsto> ''b'']"
  using parseKeyVal_second_equals_discarded[of "''a''" "''b''" Map.empty "''c''"]
  by (simp add: trim_def is_ws_def white_space_def)

section \<open>Properties of the run normalizer\<close>

lemma js_or_same_default: "js_or (js_or a d) d = js_or a d"
  by (simp add: js_or_def)

lemma js_or_absorb: "truthy d \<Longrightarrow> js_or (js_or (js_or a d) x) y = js_or a d"
  by (simp add: js_or_def)

lemma js_or_absorb1: "truthy d \<Longrightarrow> js_or (js_or a d) x = js_or a d"
  by (simp add: js_or_def)

text \<open>The object that a second normalization returns, in terms of the raw run.\<close>

lemma normalizeRun_twice_fields:
  assumes "now \<noteq> []"
  shows "normalizeRun now' (normalizeRun now r) =
     JObj
     [(''id'', field r ''id''),
      (''name'', js_or (js_or (field r ''name'') (field r ''workflow_name'')) (JStr ''unknown'')),
      (''status'', js_or (field r ''status'') (JStr ''completed'')),
      (''conclusion'', js_or (field r ''conclusion'') (JStr ''unknown'')),
      (''html_url'', js_or (field r ''html_url'') (JStr ''#'')),
      (''created_at'', js_or (js_or (field r ''created_at'') (field r ''updated_at'')) (JStr now)),
      (''updated_at'', js_or (js_or (field r ''updated_at'') (field r ''created_at'')) (JStr now)),
      (''head_branch'', js_or (field r ''head_branch'') (JStr ''main'')),
      (''head_sha'', js_or (field r ''head_sha'') (JStr [])),
      (''event'', js_or (field r ''event'') (JStr ''push'')),
      (''run_number'', js_or (field r ''run_number'') (JNum 0)),
      (''actor'', js_or (js_or (field r ''actor'') (field r ''triggering_actor'')) Null),
      (''run_started_at'', js_or (js_or (field r ''run_started_at'') (field r ''created_at''))
          (js_or (js_or (field r ''created_at'') (field r ''updated_at'')) (JStr now)))]"
proof -
  have n: "truthy (JStr now)"
    using assms by simp
  show ?thesis
    unfolding normalizeRun_def[of now' "normalizeRun now r"]
    unfolding normalizeRun_def[of now r]
    using n
    by (simp add: js_or_absorb js_or_absorb1 js_or_same_default)
       (simp add: js_or_def)
qed

text \<open>
  The v3.0 engine chooses the default conclusion by the raw status and keeps the actor
  as the other copy does.
\<close>

lemma normalizeRun_v3_conclusion_actor:
  "field (normalizeRun_v3 now r) ''conclusion'' =
     (if truthy (field r ''conclusion'') then field r ''conclusion''
      else if field r ''status'' = JStr ''completed'' then JStr ''unknown''
      else JStr ''in_progress'')
   \<and> field (normalizeRun_v3 now r) ''status'' =
     (if truthy (field r ''status'') then field r ''status'' else JStr ''completed'')
   \<and> field (normalizeRun_v3 now r) ''actor'' = field (normalizeRun now r) ''actor''"
  by (simp add: normalizeRun_v3_def normalizeRun_def js_or_def)

text \<open>
  Claim C1, as the code has it. A property counts as missing when it is absent or
  falsy. \<open>name\<close> defaults to \<open>workflow_name\<close> and then to \<open>unknown\<close>; \<open>status\<close> defaults
  to \<open>completed\<close>; \<open>conclusion\<close> defaults to \<open>unknown\<close>, whatever the status;
  \<open>head_branch\<close> defaults to \<open>main\<close>, \<open>event\<close> to \<open>push\<close>, \<open>run_number\<close> to 0;
  \<open>updated_at\<close> defaults to \<open>created_at\<close> (and to the current time when that is missing
  too); \<open>run_started_at\<close> defaults to \<open>created_at\<close>; \<open>actor\<close> is taken from \<open>actor\<close>,
  falling back to \<open>triggering_actor\<close>, falling back to \<open>null\<close>, and is kept as it is,
  with all its properties.
\<close>

theorem normalizeRun_defaults:
  "field (normalizeRun now r) ''name'' =
      (if truthy (field r ''name'') then field r ''name''
       else if truthy (field r ''workflow_name'') then field r ''workflow_name''
       else JStr ''unknown'')
   \<and> field (normalizeRun now r) ''status'' =
      (if truthy (field r ''status'') then field r ''status'' else JStr ''completed'')
   \<and> field (normalizeRun now r) ''conclusion'' =
      (if truthy (field r ''conclusion'') then field r ''conclusion'' else JStr ''unknown'')
   \<and> field (normalizeRun now r) ''head_branch'' =
      (if truthy (field r ''head_branch'') then field r ''head_branch'' else JStr ''main'')
   \<and> field (normalizeRun now r) ''event'' =
      (if truthy (field r ''event'') then field r ''event'' else JStr ''push'')
   \<and> field (normalizeRun now r) ''run_number'' =
      (if truthy (field r ''run_number'') then field r ''run_number'' else JNum 0)
   \<and> field (normalizeRun now r) ''updated_at'' =
      (if truthy (field r ''updated_at'') then field r ''updated_at''
       else if truthy (field r ''created_at'') then field r ''created_at''
       else JStr now)
   \<and> field (normalizeRun now r) ''run_started_at'' =
      (if truthy (field r ''run_started_at'') then field r ''run_started_at''
       else field r ''created_at'')
   \<and> field (normalizeRun now r) ''actor'' =
      (if truthy (field r ''actor'') then field r ''actor''
       else if truthy (field r ''triggering_actor'') then field r ''triggering_actor''
       else Null)"
  by (simp add: normalizeRun_def js_or_def)

text \<open>
  The claim as stated fails on a run in progress whose actor has a third property: the
  status is not \<open>completed\<close>, yet the conclusion is \<open>unknown\<close> and not \<open>in_progress\<close>, and
  the actor keeps its \<open>id\<close>.
\<close>

theorem normalizeRun_defaults_counterexample:
  "field (normalizeRun ''2026-01-01T00:00:00.000Z''
      (JObj [(''status'', JStr ''in_progress''),
             (''actor'', JObj [(''login'', JStr ''octocat''), (''avatar_url'', JStr ''u''),
                               (''id'', JNum 1)])])) ''status'' = JStr ''in_progress''
   \<and> field (normalizeRun ''2026-01-01T00:00:00.000Z''
      (JObj [(''status'', JStr ''in_progress''),
             (''actor'', JObj [(''login'', JStr ''octocat''), (''avatar_url'', JStr ''u''),
                               (''id'', JNum 1)])])) ''conclusion'' \<noteq> JStr ''in_progress''
   \<and> field (normalizeRun ''2026-01-01T00:00:00.000Z''
      (JObj [(''status'', JStr ''in_progress''),
             (''actor'', JObj [(''login'', JStr ''octocat''), (''avatar_url'', JStr ''u''),
                               (''id'', JNum 1)])])) ''actor''
       \<noteq> JObj [(''login'', JStr ''octocat''), (''avatar_url'', JStr ''u'')]"
  by (simp add: normalizeRun_def js_or_def)

text \<open>
  Claim C8, as the code has it. Normalizing a normalized run gives the same object
  exactly when the raw run has a \<open>run_started_at\<close> or a \<open>created_at\<close>. (The clock
  text is never empty; the two calls may read different times.)
\<close>

theorem normalizeRun_idempotent_iff:
  assumes "now \<noteq> []"
  shows "(normalizeRun now' (normalizeRun now r) = normalizeRun now r) =
           (truthy (field r ''run_started_at'') \<or> truthy (field r ''created_at''))"
proof -
  have n: "truthy (JStr now)"
    using assms by simp
  have "(normalizeRun now' (normalizeRun now r) = normalizeRun now r) =
        (js_or (js_or (field r ''run_started_at'') (field r ''created_at''))
          (js_or (js_or (field r ''created_at'') (field r ''updated_at'')) (JStr now))
         = js_or (field r ''run_started_at'') (field r ''created_at''))"
    by (simp only: normalizeRun_twice_fields[OF assms]) (simp add: normalizeRun_def)
  also have "\<dots> = (truthy (field r ''run_started_at'') \<or> truthy (field r ''created_at''))"
  proof (cases "truthy (field r ''run_started_at'') \<or> truthy (field r ''created_at'')")
    case True
    then show ?thesis by (auto simp: js_or_def)
  next
    case False
    then have "js_or (js_or (field r ''run_started_at'') (field r ''created_at''))
          (js_or (js_or (field r ''created_at'') (field r ''updated_at'')) (JStr now))
          = js_or (field r ''updated_at'') (JStr now)"
      and "js_or (field r ''run_started_at'') (field r ''created_at'') = field r ''created_at''"
      by (simp_all add: js_or_def)
    moreover have "truthy (js_or (field r ''updated_at'') (JStr now))"
      using n by (simp add: js_or_def)
    ultimately show ?thesis
      using False by metis
  qed
  finally show ?thesis .
qed

theorem normalizeRun_idempotent_iff_witness:
  "''2026-01-01T00:00:00.000Z'' \<noteq> []
   \<and> truthy (field (JObj [(''id'', JNum 7), (''created_at'', JStr ''2025-12-31T10:00:00Z'')]) ''created_at'')
   \<and> normalizeRun ''2026-01-02T00:00:00.000Z'' (normalizeRun ''2026-01-01T00:00:00.000Z''
         (JObj [(''id'', JNum 7), (''created_at'', JStr ''2025-12-31T10:00:00Z'')]))
       = normalizeRun ''2026-01-01T00:00:00.000Z''
         (JObj [(''id'', JNum 7), (''created_at'', JStr ''2025-12-31T10:00:00Z'')])"
proof -
  have t: "truthy (field (JObj [(''id'', JNum 7), (''created_at'', JStr ''2025-12-31T10:00:00Z'')])
             ''created_at'')"
    by simp
  have n: "''2026-01-01T00:00:00.000Z'' \<noteq> []"
    by simp
  show ?thesis
    using normalizeRun_idempotent_iff[OF n, of "''2026-01-02T00:00:00.000Z''"
        "JObj [(''id'', JNum 7), (''created_at'', JStr ''2025-12-31T10:00:00Z'')]"] t n
    by blast
qed

text \<open>The claim as stated fails on the empty object: the second pass fills \<open>run_started_at\<close>.\<close>

theorem normalizeRun_idempotent_counterexample:
  "normalizeRun ''2026-01-01T00:00:00.000Z'' (normalizeRun ''2026-01-01T00:00:00.000Z'' (JObj []))
     \<noteq> normalizeRun ''2026-01-01T00:00:00.000Z'' (JObj [])"
  by (simp add: normalizeRun_def js_or_def)

section \<open>Properties of the data fetcher\<close>

lemma api_attempt_shape:
  "api_attempt now env r = Inr (Some snap) \<Longrightarrow> truthy snap \<and> (\<exists>runs. field snap ''runs'' = JArr runs)"
  by (auto simp: api_attempt_def split: sum.splits if_splits)

lemma static_attempt_shape:
  "static_attempt now env r = Inr (Some snap) \<Longrightarrow> truthy snap \<and> (\<exists>runs. field snap ''runs'' = JArr runs)"
  by (auto simp: static_attempt_def split: sum.splits if_splits)

lemma fetchRepoData_fulfilled:
  "\<exists>v. fetchRepoData now env r = Fulfilled v \<and> (v = Null \<or> (truthy v \<and> (\<exists>runs. field v ''runs'' = JArr runs)))"
proof (cases "api_attempt now env r")
  case (Inl e)
  then show ?thesis
    using static_attempt_shape[of now env r]
    by (auto simp: fetchRepoData_def split: sum.splits option.splits)
next
  case (Inr x)
  then show ?thesis
    using static_attempt_shape[of now env r] api_attempt_shape[of now env r]
    by (auto simp: fetchRepoData_def split: sum.splits option.splits)
qed

lemma fetchRepoData_both_fail:
  "api_fetch env (repo_name r) = Inl e1 \<Longrightarrow> static_fetch env (repo_name r) = Inl e2 \<Longrightarrow>
     fetchRepoData now env r = Fulfilled Null"
  by (simp add: fetchRepoData_def api_attempt_def static_attempt_def)

lemma fetchRepoData_local:
  "api_fetch env' (repo_name r) = api_fetch env (repo_name r) \<Longrightarrow>
   static_fetch env' (repo_name r) = static_fetch env (repo_name r) \<Longrightarrow>
   fetchRepoData now env' r = fetchRepoData now env r"
proof -
  assume a: "api_fetch env' (repo_name r) = api_fetch env (repo_name r)"
    and b: "static_fetch env' (repo_name r) = static_fetch env (repo_name r)"
  have "api_attempt now env' r = api_attempt now env r"
    by (simp add: api_attempt_def a)
  moreover have "static_attempt now env' r = static_attempt now env r"
    by (simp add: static_attempt_def b)
  ultimately show ?thesis
    by (simp only: fetchRepoData_def)
qed

lemma fetchRepoData_name:
  "repo_name r' = repo_name r \<Longrightarrow> fetchRepoData now env r' = fetchRepoData now env r"
proof -
  assume a: "repo_name r' = repo_name r"
  have "api_attempt now env r' = api_attempt now env r"
    by (simp add: api_attempt_def a)
  moreover have "static_attempt now env r' = static_attempt now env r"
    by (simp add: static_attempt_def a)
  ultimately show ?thesis
    by (simp only: fetchRepoData_def)
qed


lemma collect_fetched:
  "\<exists>st'. collect st (r, fetchRepoData now env r) = Inr st'
     \<and> repoData st' = (repoData st)(repo_name r \<mapsto> snapshot_for now env r)
     \<and> allRuns st' = allRuns st @ runs_for now env r"
proof -
  obtain v where v: "fetchRepoData now env r = Fulfilled v"
    and sh: "v = Null \<or> (truthy v \<and> (\<exists>runs. field v ''runs'' = JArr runs))"
    using fetchRepoData_fulfilled by blast
  from sh show ?thesis
  proof
    assume "v = Null"
    then show ?thesis using v by (simp add: collect_def snapshot_for_def runs_for_def)
  next
    assume "truthy v \<and> (\<exists>runs. field v ''runs'' = JArr runs)"
    then show ?thesis using v by (auto simp: collect_def snapshot_for_def runs_for_def js_or_def)
  qed
qed


lemma collect_all_fetched:
  "\<exists>st'. collect_all st (zip repos (map (fetchRepoData now env) repos)) = Inr st'
     \<and> repoData st' = repoData st ++ map_of (rev (map (\<lambda>r. (repo_name r, snapshot_for now env r)) repos))
     \<and> allRuns st' = allRuns st @ concat (map (runs_for now env) repos)"
proof (induction repos arbitrary: st)
  case Nil
  then show ?case by simp
next
  case (Cons r rs)
  obtain st1 where c: "collect st (r, fetchRepoData now env r) = Inr st1"
    and d: "repoData st1 = (repoData st)(repo_name r \<mapsto> snapshot_for now env r)"
    and r1: "allRuns st1 = allRuns st @ runs_for now env r"
    using collect_fetched by blast
  obtain st2 where a: "collect_all st1 (zip rs (map (fetchRepoData now env) rs)) = Inr st2"
    and e: "repoData st2 = repoData st1 ++ map_of (rev (map (\<lambda>r. (repo_name r, snapshot_for now env r)) rs))"
    and r2: "allRuns st2 = allRuns st1 @ concat (map (runs_for now env) rs)"
    using Cons[of st1] by blast
  have r3: "allRuns st2 = allRuns st @ concat (map (runs_for now env) (r # rs))"
    by (simp add: r2 r1)
  have "repoData st2 = repoData st ++ map_of (rev (map (\<lambda>r. (repo_name r, snapshot_for now env r)) (r # rs)))"
    unfolding e d by (rule ext) (simp add: map_add_def split: option.splits)
  then show ?case using c a r3 by simp
qed


lemma snapshot_for_name:
  "repo_name r' = repo_name r \<Longrightarrow> snapshot_for now env r' = snapshot_for now env r"
  by (simp only: snapshot_for_def fetchRepoData_name[of r' r now env])

lemma map_of_unique_value:
  assumes "(k, v) \<in> set xs" and "\<forall>v'. (k, v') \<in> set xs \<longrightarrow> v' = v"
  shows "map_of xs k = Some v"
proof -
  obtain v' where m: "map_of xs k = Some v'"
    using weak_map_of_SomeI[OF assms(1)] by blast
  then have "(k, v') \<in> set xs"
    by (rule map_of_SomeD)
  then have "v' = v"
    using assms(2) by blast
  then show ?thesis
    using m by blast
qed


lemma map_of_rev_names:
  assumes "b \<in> set repos" and "\<And>r. g r = g b \<Longrightarrow> f r = f b"
  shows "map_of (rev (map (\<lambda>r. (g r, f r)) repos)) (g b) = Some (f b)"
proof (rule map_of_unique_value)
  show "(g b, f b) \<in> set (rev (map (\<lambda>r. (g r, f r)) repos))"
    using assms(1) by auto
  show "\<forall>v'. (g b, v') \<in> set (rev (map (\<lambda>r. (g r, f r)) repos)) \<longrightarrow> v' = f b"
  proof (intro allI impI)
    fix v'
    assume "(g b, v') \<in> set (rev (map (\<lambda>r. (g r, f r)) repos))"
    then obtain c where "g c = g b" "v' = f c"
      by auto
    then show "v' = f b"
      using assms(2)[of c] by blast
  qed
qed

lemma refresh_collect_result:
  "\<exists>st. refresh_collect now env repos = Inr st
     \<and> (\<forall>b\<in>set repos. repoData st (repo_name b) = Some (snapshot_for now env b))
     \<and> allRuns st = concat (map (runs_for now env) repos)"
proof -
  let ?st0 = "\<lparr>repoData = Map.empty, allRuns = []\<rparr>"
  obtain st where a: "collect_all ?st0 (zip repos (map (fetchRepoData now env) repos)) = Inr st"
    and d0: "repoData st = repoData ?st0 ++
               map_of (rev (map (\<lambda>r. (repo_name r, snapshot_for now env r)) repos))"
    and r0: "allRuns st = allRuns ?st0 @ concat (map (runs_for now env) repos)"
    using collect_all_fetched[of ?st0 repos now env] by blast
  have r: "allRuns st = concat (map (runs_for now env) repos)"
    by (simp only: r0 cycle.simps append_Nil)
  have d: "repoData st = map_of (rev (map (\<lambda>r. (repo_name r, snapshot_for now env r)) repos))"
    by (simp only: d0 cycle.simps empty_map_add)
  have "repoData st (repo_name b) = Some (snapshot_for now env b)" if "b \<in> set repos" for b
  proof -
    have "map_of (rev (map (\<lambda>r. (repo_name r, snapshot_for now env r)) repos)) (repo_name b)
            = Some (snapshot_for now env b)"
      using that snapshot_for_name[of _ b now env]
      by (rule map_of_rev_names)
    then show ?thesis by (simp only: d)
  qed
  then show ?thesis
    using a r by (simp only: refresh_collect_def) blast
qed

lemma runs_for_local:
  "api_fetch env' (repo_name r) = api_fetch env (repo_name r) \<Longrightarrow>
   static_fetch env' (repo_name r) = static_fetch env (repo_name r) \<Longrightarrow>
   runs_for now env' r = runs_for now env r"
  by (simp only: runs_for_def fetchRepoData_local[of env' r env now])

lemma snapshot_for_local:
  "api_fetch env' (repo_name r) = api_fetch env (repo_name r) \<Longrightarrow>
   static_fetch env' (repo_name r) = static_fetch env (repo_name r) \<Longrightarrow>
   snapshot_for now env' r = snapshot_for now env r"
  by (simp only: snapshot_for_def fetchRepoData_local[of env' r env now])

text \<open>
  Claim C3. In a refresh cycle over any list of repositories, if both the API fetch and
  the static-file fetch fail for a repository of the list, then the loop over the
  settled promises ends without an exception, \<open>repoData\<close> holds
  \<open>{runs: [], conclusion: 'unknown', error: true}\<close> for that repository, and every
  repository holds the snapshot that its own fetches determine. \<open>allRuns\<close> is made of
  the runs that each repository brings, in the order of the list, and the failed
  repository brings none. Had the fetches of the failed repository gone any other way,
  every other repository would hold the same snapshot and bring the same runs.
\<close>

theorem refresh_isolates_failed_repo:
  assumes "a \<in> set repos"
    and "api_fetch env (repo_name a) = Inl e1"
    and "static_fetch env (repo_name a) = Inl e2"
  shows "\<exists>st. refresh_collect now env repos = Inr st
           \<and> repoData st (repo_name a) =
               Some (JObj [(''runs'', JArr []), (''conclusion'', JStr ''unknown''),
                           (''error'', JBool True)])
           \<and> (\<forall>b\<in>set repos. repoData st (repo_name b) = Some (snapshot_for now env b))
           \<and> allRuns st = concat (map (runs_for now env) repos)
           \<and> runs_for now env a = []
           \<and> (\<forall>env'. (\<forall>n. n \<noteq> repo_name a \<longrightarrow>
                         api_fetch env' n = api_fetch env n \<and> static_fetch env' n = static_fetch env n)
                 \<longrightarrow> (\<exists>st'. refresh_collect now env' repos = Inr st'
                        \<and> (\<forall>b\<in>set repos. repo_name b \<noteq> repo_name a \<longrightarrow>
                              repoData st' (repo_name b) = repoData st (repo_name b)
                              \<and> runs_for now env' b = runs_for now env b)))"
proof -
  obtain st where s: "refresh_collect now env repos = Inr st"
    and d: "\<forall>b\<in>set repos. repoData st (repo_name b) = Some (snapshot_for now env b)"
    and r: "allRuns st = concat (map (runs_for now env) repos)"
    using refresh_collect_result by blast
  have fa: "fetchRepoData now env a = Fulfilled Null"
    using fetchRepoData_both_fail[OF assms(2,3)] .
  have "snapshot_for now env a =
          JObj [(''runs'', JArr []), (''conclusion'', JStr ''unknown''), (''error'', JBool True)]"
    using fa by (simp add: snapshot_for_def errorSnapshot_def)
  then have ea: "repoData st (repo_name a) =
          Some (JObj [(''runs'', JArr []), (''conclusion'', JStr ''unknown''),
                      (''error'', JBool True)])"
    using d assms(1) by simp
  have ra: "runs_for now env a = []"
    using fa by (simp add: runs_for_def)
  have iso: "\<exists>st'. refresh_collect now env' repos = Inr st'
                \<and> (\<forall>b\<in>set repos. repo_name b \<noteq> repo_name a \<longrightarrow>
                      repoData st' (repo_name b) = repoData st (repo_name b)
                      \<and> runs_for now env' b = runs_for now env b)"
    if h: "\<forall>n. n \<noteq> repo_name a \<longrightarrow>
             api_fetch env' n = api_fetch env n \<and> static_fetch env' n = static_fetch env n"
    for env'
  proof -
    obtain st' where s': "refresh_collect now env' repos = Inr st'"
      and d': "\<forall>b\<in>set repos. repoData st' (repo_name b) = Some (snapshot_for now env' b)"
      using refresh_collect_result by blast
    have "repoData st' (repo_name b) = repoData st (repo_name b)"
      if "b \<in> set repos" "repo_name b \<noteq> repo_name a" for b
      using that d d' h snapshot_for_local[of env' b env now] by simp
    moreover have "runs_for now env' b = runs_for now env b"
      if "repo_name b \<noteq> repo_name a" for b
      using that h runs_for_local[of env' b env now] by simp
    ultimately show ?thesis using s' by blast
  qed
  show ?thesis using s d r ea ra iso by blast
qed


theorem refresh_isolates_failed_repo_witness:
  "\<lparr>repo_name = ''repo-a''\<rparr> \<in> set example_repos
   \<and> api_fetch example_env ''repo-a'' = Inl FetchError
   \<and> static_fetch example_env ''repo-a'' = Inl FetchError
   \<and> (\<exists>st. refresh_collect ''2026-01-02T00:00:00.000Z'' example_env example_repos = Inr st
          \<and> repoData st ''repo-a'' =
              Some (JObj [(''runs'', JArr []), (''conclusion'', JStr ''unknown''),
                          (''error'', JBool True)])
          \<and> repoData st ''repo-b'' = Some (JObj
               [(''runs'', JArr [normalizeRun ''2026-01-02T00:00:00.000Z''
                   (JObj [(''id'', JNum 1), (''name'', JStr ''CI''),
                    (''conclusion'', JStr ''success''),
                    (''created_at'', JStr ''2026-01-01T00:00:00Z'')])]),
                (''conclusion'', JStr ''success''),
                (''totalCount'', JNum 1)])
          \<and> allRuns st =
              [with_repo \<lparr>repo_name = ''repo-b''\<rparr>
                 (normalizeRun ''2026-01-02T00:00:00.000Z''
                   (JObj [(''id'', JNum 1), (''name'', JStr ''CI''),
                    (''conclusion'', JStr ''success''),
                    (''created_at'', JStr ''2026-01-01T00:00:00Z'')]))])"
proof -
  let ?a = "\<lparr>repo_name = ''repo-a''\<rparr>"
  let ?b = "\<lparr>repo_name = ''repo-b''\<rparr>"
  have m: "?a \<in> set example_repos" "?b \<in> set example_repos"
    by (simp_all add: example_repos_def)
  have f: "api_fetch example_env (repo_name ?a) = Inl FetchError"
          "static_fetch example_env (repo_name ?a) = Inl FetchError"
    by (simp_all add: example_env_def)
  have sb: "snapshot_for ''2026-01-02T00:00:00.000Z'' example_env ?b = JObj
               [(''runs'', JArr [normalizeRun ''2026-01-02T00:00:00.000Z''
                   (JObj [(''id'', JNum 1), (''name'', JStr ''CI''),
                    (''conclusion'', JStr ''success''),
                    (''created_at'', JStr ''2026-01-01T00:00:00Z'')])]),
                (''conclusion'', JStr ''success''),
                (''totalCount'', JNum 1)]"
    by (simp add: snapshot_for_def fetchRepoData_def api_attempt_def example_env_def
          map_normalizeRun_def js_or_def normalizeRun_def)
  have rb: "runs_for ''2026-01-02T00:00:00.000Z'' example_env ?b =
              [with_repo ?b (normalizeRun ''2026-01-02T00:00:00.000Z''
                   (JObj [(''id'', JNum 1), (''name'', JStr ''CI''),
                    (''conclusion'', JStr ''success''),
                    (''created_at'', JStr ''2026-01-01T00:00:00Z'')]))]"
    by (simp add: runs_for_def fetchRepoData_def api_attempt_def example_env_def
          map_normalizeRun_def js_or_def normalizeRun_def)
  have ex: "example_repos = [?a, ?b]"
    by (simp add: example_repos_def)
  from refresh_isolates_failed_repo[OF m(1) f, of "''2026-01-02T00:00:00.000Z''"]
  obtain st where "refresh_collect ''2026-01-02T00:00:00.000Z'' example_env example_repos = Inr st"
    and "repoData st (repo_name ?a) =
           Some (JObj [(''runs'', JArr []), (''conclusion'', JStr ''unknown''),
                       (''error'', JBool True)])"
    and "\<forall>b\<in>set example_repos. repoData st (repo_name b) =
            Some (snapshot_for ''2026-01-02T00:00:00.000Z'' example_env b)"
    and "allRuns st = concat (map (runs_for ''2026-01-02T00:00:00.000Z'' example_env) example_repos)"
    and "runs_for ''2026-01-02T00:00:00.000Z'' example_env ?a = []"
    by blast
  then show ?thesis
    using m f sb rb by (auto simp: ex)
qed

section \<open>Properties of the run filters\<close>

lemma includes_empty_copilot: "\<not> str_includes (lower []) ''copilot''"
  by (simp add: lower_def)

lemma gen_select_spec: "gen_select run = Inr keep \<Longrightarrow> keep = (\<not> spec_excluded run)"
proof (cases run)
  case (JObj kvs)
  assume a: "gen_select run = Inr keep"
  show ?thesis
  proof (cases "map_of kvs ''name''")
    case None
    then show ?thesis using a JObj
      by (auto simp: gen_select_def spec_excluded_def jq_alt_def lower_def split: option.splits if_splits)
  next
    case (Some v)
    then show ?thesis using a JObj
      by (cases v) (auto simp: gen_select_def spec_excluded_def jq_alt_def lower_def
            split: option.splits if_splits)
  qed
qed (auto simp: gen_select_def spec_excluded_def jq_alt_def lower_def split: if_splits)

lemma gen_runs_spec:
  "gen_runs raw = Inr out \<Longrightarrow>
     list_all2 (\<lambda>run p. gen_project run = Inr p) (filter (\<lambda>run. \<not> spec_excluded run) raw) out"
proof (induction raw arbitrary: out)
  case Nil
  then show ?case by simp
next
  case (Cons run rest)
  from Cons.prems obtain keep where k: "gen_select run = Inr keep"
    by (auto split: sum.splits)
  then have ke: "keep = (\<not> spec_excluded run)" by (rule gen_select_spec)
  show ?case
  proof (cases keep)
    case True
    then obtain p outs where "gen_project run = Inr p" "gen_runs rest = Inr outs" "out = p # outs"
      using Cons.prems k by (auto split: sum.splits)
    then show ?thesis using Cons.IH[of outs] True ke by simp
  next
    case False
    then have "gen_runs rest = Inr out" using Cons.prems k by simp
    then show ?thesis using Cons.IH[of out] False ke by simp
  qed
qed

lemma detail_keep_spec:
  "detail_keep r = Inr keep \<Longrightarrow> keep = (\<not> spec_excluded r \<and> \<not> names_release r)"
  by (cases "field r ''name''")
     (auto simp: detail_keep_def spec_excluded_def names_release_def js_or_def lower_def
           split: if_splits jsval.splits)

lemma detail_ciRuns_spec:
  "detail_ciRuns runs = Inr kept \<Longrightarrow>
     kept = filter (\<lambda>r. \<not> spec_excluded r \<and> \<not> names_release r) runs"
proof (induction runs arbitrary: kept)
  case Nil
  then show ?case by simp
next
  case (Cons r rest)
  from Cons.prems obtain keep ks where k: "detail_keep r = Inr keep"
    and r: "detail_ciRuns rest = Inr ks" and e: "kept = (if keep then r # ks else ks)"
    by (auto split: sum.splits)
  show ?case
    using detail_keep_spec[OF k] Cons.IH[OF r] e by simp
qed

lemma normalizeRun_keeps_excluded: "spec_excluded x \<Longrightarrow> spec_excluded (normalizeRun now x)"
  by (auto simp: spec_excluded_def normalizeRun_def js_or_def lower_def split: jsval.splits)

lemma fetchRepoData_api_all:
  assumes "api_fetch env (repo_name rp) = Inr data"
    and "field data ''workflow_runs'' = JArr xs"
    and "\<not> list_ex (\<lambda>x. x = Undefined \<or> x = Null) xs"
  shows "\<exists>snap. fetchRepoData now env rp = Fulfilled snap
           \<and> field snap ''runs'' = JArr (map (normalizeRun now) xs)"
proof -
  have "truthy data" using assms(2) by (cases data) simp_all
  then show ?thesis
    using assms by (simp add: fetchRepoData_def api_attempt_def map_normalizeRun_def)
qed

lemma fetchRepoData_static_all:
  assumes "api_fetch env (repo_name rp) = Inl e"
    and "static_fetch env (repo_name rp) = Inr data"
    and "field data ''runs'' = JArr xs"
    and "\<not> list_ex (\<lambda>x. x = Undefined \<or> x = Null) xs"
  shows "\<exists>snap. fetchRepoData now env rp = Fulfilled snap
           \<and> field snap ''runs'' = JArr (map (normalizeRun now) xs)"
proof -
  have "truthy data" using assms(3) by (cases data) simp_all
  then show ?thesis
    using assms by (simp add: fetchRepoData_def api_attempt_def static_attempt_def map_normalizeRun_def)
qed

text \<open>
  Claim C4, as the code has it. The static generator keeps exactly the runs that the
  rule does not exclude (a run is excluded when its name contains \<open>copilot\<close>, whatever
  the case, or its event is \<open>dynamic\<close>), and so does the detail page when it reads the
  static JSON, which leaves out the release runs as well. The dashboard's
  \<open>fetchRepoData\<close> applies no filter: from the live API and from the static file alike
  it keeps every run, and a run that the rule excludes is still one after
  normalization.
\<close>

theorem run_filter_by_path:
  "(gen_runs raw = Inr out \<longrightarrow>
      list_all2 (\<lambda>run p. gen_project run = Inr p) (filter (\<lambda>run. \<not> spec_excluded run) raw) out)
   \<and> (detail_ciRuns runs = Inr kept \<longrightarrow>
      kept = filter (\<lambda>r. \<not> spec_excluded r \<and> \<not> names_release r) runs)
   \<and> (api_fetch env (repo_name rp) = Inr data \<and> field data ''workflow_runs'' = JArr xs
        \<and> \<not> list_ex (\<lambda>x. x = Undefined \<or> x = Null) xs \<longrightarrow>
      (\<exists>snap. fetchRepoData now env rp = Fulfilled snap
         \<and> field snap ''runs'' = JArr (map (normalizeRun now) xs)))
   \<and> (api_fetch env' (repo_name rp') = Inl e \<and> static_fetch env' (repo_name rp') = Inr sdata
        \<and> field sdata ''runs'' = JArr ys \<and> \<not> list_ex (\<lambda>x. x = Undefined \<or> x = Null) ys \<longrightarrow>
      (\<exists>snap. fetchRepoData now env' rp' = Fulfilled snap
         \<and> field snap ''runs'' = JArr (map (normalizeRun now) ys)))
   \<and> (spec_excluded x \<longrightarrow> spec_excluded (normalizeRun now x))"
  using gen_runs_spec[of raw out] detail_ciRuns_spec[of runs kept]
    fetchRepoData_api_all[of env rp data xs now]
    fetchRepoData_static_all[of env' rp' e sdata ys now]
    normalizeRun_keeps_excluded[of x now]
  by blast

theorem run_filter_by_path_witness:
  "gen_runs [copilot_run, ci_run] = Inr [JObj [(''id'', JNum 2), (''name'', JStr ''CI''),
      (''status'', Null), (''conclusion'', Null), (''html_url'', Null), (''created_at'', Null),
      (''updated_at'', Null), (''head_branch'', Null), (''head_sha'', Null),
      (''event'', JStr ''push''), (''run_number'', Null), (''run_started_at'', Null),
      (''actor'', Null)]]
   \<and> filter (\<lambda>run. \<not> spec_excluded run) [copilot_run, ci_run] = [ci_run]
   \<and> detail_ciRuns [copilot_run, ci_run] = Inr [ci_run]
   \<and> api_fetch copilot_env ''repo-a'' = Inr (JObj [(''workflow_runs'', JArr [copilot_run])])
   \<and> (\<exists>snap. fetchRepoData ''2026-01-02T00:00:00.000Z'' copilot_env \<lparr>repo_name = ''repo-a''\<rparr>
          = Fulfilled snap
        \<and> field snap ''runs'' = JArr [normalizeRun ''2026-01-02T00:00:00.000Z'' copilot_run])
   \<and> api_fetch static_copilot_env ''repo-a'' = Inl FetchError
   \<and> static_fetch static_copilot_env ''repo-a'' = Inr (JObj [(''runs'', JArr [copilot_run])])
   \<and> (\<exists>snap. fetchRepoData ''2026-01-02T00:00:00.000Z'' static_copilot_env \<lparr>repo_name = ''repo-a''\<rparr>
          = Fulfilled snap
        \<and> field snap ''runs'' = JArr [normalizeRun ''2026-01-02T00:00:00.000Z'' copilot_run])
   \<and> spec_excluded copilot_run
   \<and> spec_excluded (normalizeRun ''2026-01-02T00:00:00.000Z'' copilot_run)"
proof -
  let ?p = "JObj [(''id'', JNum 2), (''name'', JStr ''CI''),
      (''status'', Null), (''conclusion'', Null), (''html_url'', Null), (''created_at'', Null),
      (''updated_at'', Null), (''head_branch'', Null), (''head_sha'', Null),
      (''event'', JStr ''push''), (''run_number'', Null), (''run_started_at'', Null),
      (''actor'', Null)]"
  have g: "gen_runs [copilot_run, ci_run] = Inr [?p]"
    by (simp add: copilot_run_def ci_run_def gen_select_def gen_project_def gen_actor_def
          jq_alt_def lower_def lower_char_def)
  have d: "detail_ciRuns [copilot_run, ci_run] = Inr [ci_run]"
    by (simp add: copilot_run_def ci_run_def detail_keep_def js_or_def lower_def lower_char_def)
  have x: "spec_excluded copilot_run" "\<not> spec_excluded ci_run"
    by (simp_all add: copilot_run_def ci_run_def spec_excluded_def lower_def lower_char_def)
  have a: "api_fetch copilot_env (repo_name \<lparr>repo_name = ''repo-a''\<rparr>) =
             Inr (JObj [(''workflow_runs'', JArr [copilot_run])])"
    "field (JObj [(''workflow_runs'', JArr [copilot_run])]) ''workflow_runs'' = JArr [copilot_run]"
    "\<not> list_ex (\<lambda>x. x = Undefined \<or> x = Null) [copilot_run]"
    by (simp_all add: copilot_env_def copilot_run_def)
  have s: "api_fetch static_copilot_env (repo_name \<lparr>repo_name = ''repo-a''\<rparr>) = Inl FetchError"
    "static_fetch static_copilot_env (repo_name \<lparr>repo_name = ''repo-a''\<rparr>) =
       Inr (JObj [(''runs'', JArr [copilot_run])])"
    "field (JObj [(''runs'', JArr [copilot_run])]) ''runs'' = JArr [copilot_run]"
    by (simp_all add: static_copilot_env_def)
  note t = run_filter_by_path[of "[copilot_run, ci_run]" "[?p]" "[copilot_run, ci_run]" "[ci_run]"
      copilot_env "\<lparr>repo_name = ''repo-a''\<rparr>" "JObj [(''workflow_runs'', JArr [copilot_run])]"
      "[copilot_run]" "''2026-01-02T00:00:00.000Z''"
      static_copilot_env "\<lparr>repo_name = ''repo-a''\<rparr>" FetchError
      "JObj [(''runs'', JArr [copilot_run])]" "[copilot_run]" copilot_run]
  have f: "filter (\<lambda>run. \<not> spec_excluded run) [copilot_run, ci_run] = [ci_run]"
    using x by simp
  have 1: "\<exists>snap. fetchRepoData ''2026-01-02T00:00:00.000Z'' copilot_env \<lparr>repo_name = ''repo-a''\<rparr>
          = Fulfilled snap
        \<and> field snap ''runs'' = JArr (map (normalizeRun ''2026-01-02T00:00:00.000Z'') [copilot_run])"
    using t a by blast
  have 2: "\<exists>snap. fetchRepoData ''2026-01-02T00:00:00.000Z'' static_copilot_env \<lparr>repo_name = ''repo-a''\<rparr>
          = Fulfilled snap
        \<and> field snap ''runs'' = JArr (map (normalizeRun ''2026-01-02T00:00:00.000Z'') [copilot_run])"
    using t s a(3) by blast
  have 3: "spec_excluded (normalizeRun ''2026-01-02T00:00:00.000Z'' copilot_run)"
    using t x(1) by blast
  show ?thesis
    using g f d a(1) s(1,2) 1 2 3 x(1) by simp
qed

text \<open>
  The claim as stated fails on the live API path: a run named \<open>Copilot review\<close> with
  event \<open>dynamic\<close> is in the snapshot that \<open>fetchRepoData\<close> returns.
\<close>

theorem run_filter_not_uniform_counterexample:
  "spec_excluded copilot_run
   \<and> fetchRepoData ''2026-01-02T00:00:00.000Z'' copilot_env \<lparr>repo_name = ''repo-a''\<rparr> =
       Fulfilled (JObj [(''runs'', JArr [normalizeRun ''2026-01-02T00:00:00.000Z'' copilot_run]),
                        (''conclusion'', JStr ''unknown''), (''totalCount'', JNum 1)])
   \<and> field (normalizeRun ''2026-01-02T00:00:00.000Z'' copilot_run) ''name'' = JStr ''Copilot review''
   \<and> field (normalizeRun ''2026-01-02T00:00:00.000Z'' copilot_run) ''event'' = JStr ''dynamic''"
  by (simp add: copilot_run_def copilot_env_def spec_excluded_def lower_def lower_char_def
        fetchRepoData_def api_attempt_def map_normalizeRun_def normalizeRun_def js_or_def)

section \<open>Properties of the classification\<close>

lemma classifyName_cases:
  "classifyName n =
     (if str_includes (lower n) ''lint'' then Some Lint
      else if str_includes (lower n) ''test'' then Some Test
      else if str_includes (lower n) ''security'' \<or> str_includes (lower n) ''scan''
            \<or> str_includes (lower n) ''sast'' \<or> str_includes (lower n) ''trivy''
            \<or> str_includes (lower n) ''vuln'' then Some Security
      else if str_includes (lower n) ''release'' then Some Release
      else None)"
  by (simp add: classifyName_def CATEGORIES_def)

lemma categorise_jobs_filter:
  "categorise_jobs cats jobs c = cats c @ filter (\<lambda>j. classifyName (job_name j) = Some c) jobs"
  by (induction jobs arbitrary: cats) (auto split: option.splits)


text \<open>
  Claim C5, as the code has it. \<open>classifyName\<close> tries lint, test, security and release
  in this order and the first category with a matching pattern wins (letters of either
  case): lint when the name contains \<open>lint\<close>; test when it contains \<open>test\<close> and not
  \<open>lint\<close>; security when it contains \<open>security\<close>, \<open>scan\<close>, \<open>sast\<close>, \<open>trivy\<close> or \<open>vuln\<close> and
  neither \<open>lint\<close> nor \<open>test\<close>; release when it contains \<open>release\<close> and none of the
  patterns before. A job is pushed to the bucket of its category. Of the jobs
  \<open>Run Lint\<close>, \<open>Unit Test Suite\<close>, \<open>Trivy Scan\<close>, \<open>Deploy Release\<close> the first is put
  in lint, the second in test, the third in security and the fourth in release. The
  detail page looks for a lint, a test and a security job by the words \<open>lint\<close>, \<open>test\<close>
  and \<open>security\<close> alone: it finds the first two jobs and no security job.
\<close>

theorem classification_first_match:
  "(classifyName n = Some Lint) = str_includes (lower n) ''lint''
   \<and> (classifyName n = Some Test) =
        (str_includes (lower n) ''test'' \<and> \<not> str_includes (lower n) ''lint'')
   \<and> (classifyName n = Some Security) =
        ((str_includes (lower n) ''security'' \<or> str_includes (lower n) ''scan''
          \<or> str_includes (lower n) ''sast'' \<or> str_includes (lower n) ''trivy''
          \<or> str_includes (lower n) ''vuln'')
         \<and> \<not> str_includes (lower n) ''lint'' \<and> \<not> str_includes (lower n) ''test'')
   \<and> (classifyName n = Some Release) =
        (str_includes (lower n) ''release''
         \<and> \<not> str_includes (lower n) ''lint'' \<and> \<not> str_includes (lower n) ''test''
         \<and> \<not> str_includes (lower n) ''security'' \<and> \<not> str_includes (lower n) ''scan''
         \<and> \<not> str_includes (lower n) ''sast'' \<and> \<not> str_includes (lower n) ''trivy''
         \<and> \<not> str_includes (lower n) ''vuln'')
   \<and> categorise_jobs (\<lambda>c. []) jobs cat = filter (\<lambda>j. classifyName (job_name j) = Some cat) jobs
   \<and> map (\<lambda>j. classifyName (job_name j)) four_jobs =
        [Some Lint, Some Test, Some Security, Some Release]
   \<and> lintJob four_jobs = Some (job_named ''Run Lint'')
   \<and> testJob four_jobs = Some (job_named ''Unit Test Suite'')
   \<and> secJob four_jobs = None"
proof -
  have a: "map (\<lambda>j. classifyName (job_name j)) four_jobs =
        [Some Lint, Some Test, Some Security, Some Release]"
    by (simp add: four_jobs_def job_named_def job_name_def classifyName_def CATEGORIES_def
          lower_def lower_char_def)
  have b: "lintJob four_jobs = Some (job_named ''Run Lint'')"
    "testJob four_jobs = Some (job_named ''Unit Test Suite'')"
    "secJob four_jobs = None"
    by (simp_all add: four_jobs_def job_named_def job_name_def lintJob_def testJob_def secJob_def
          find_job_def lower_def lower_char_def)
  have c: "categorise_jobs (\<lambda>c. []) jobs cat = filter (\<lambda>j. classifyName (job_name j) = Some cat) jobs"
    by (simp add: categorise_jobs_filter)
  show ?thesis
    by (simp only: a b c) (simp add: classifyName_cases)
qed

text \<open>
  The claim as stated fails: the job \<open>Deploy Release\<close> is put in the release bucket; a
  name that contains \<open>security\<close> and \<open>test\<close> is classified as test; and the detail page
  finds no security job among the four, \<open>Trivy Scan\<close> not containing \<open>security\<close>.
\<close>

theorem classification_counterexample:
  "categorise_jobs (\<lambda>c. []) four_jobs Release = [job_named ''Deploy Release'']
   \<and> str_includes (lower ''Security Test'') ''security''
   \<and> classifyName ''Security Test'' = Some Test
   \<and> secJob four_jobs = None"
  by (simp add: four_jobs_def job_named_def job_name_def classifyName_def CATEGORIES_def
        secJob_def find_job_def lower_def lower_char_def)

section \<open>Properties of the pass rate\<close>















lemma decimal1_examples:
  "decimal1 0 = ''0.0''" "decimal1 5 = ''0.5''" "decimal1 333 = ''33.3''" "decimal1 1000 = ''100.0''"
  by code_simp+




section \<open>Properties of the success streak\<close>

lemma streak_loop_takeWhile:
  "streak_loop n runs =
     n + length (takeWhile (\<lambda>r. field r ''conclusion'' = JStr ''success'') runs)"
  by (induction runs arbitrary: n) simp_all

text \<open>
  Claim C7. The success streak of a list of runs (most recent first) is the number of
  runs in the longest prefix of the list in which every conclusion is \<open>success\<close>: the
  count stops at the first run whose conclusion is something else. For the conclusions
  success, success, failure, success the streak is 2.
\<close>

theorem computeStreak_prefix_count:
  "computeStreak runs =
     length (takeWhile (\<lambda>r. field r ''conclusion'' = JStr ''success'') runs)
   \<and> computeStreak (map run_with_conclusion
        [''success'', ''success'', ''failure'', ''success'']) = 2"
  by (simp add: computeStreak_def streak_loop_takeWhile run_with_conclusion_def)

end
